theory Spec2Isabelle
  imports Complex_Main "HOL-Library.Word"
begin

unbundle bit_operations_syntax

section \<open>Machine types, errors and byte order\<close>

type_synonym byte = "8 word"
type_synonym uint16 = "16 word"
type_synonym uint32 = "32 word"

text \<open>A Go \<^verbatim>\<open>string\<close> is a sequence of bytes.\<close>

type_synonym gostring = "byte list"

text \<open>
  The error values of \<^verbatim>\<open>frame.go\<close>, the two errors \<^verbatim>\<open>bytes.Reader\<close> and
  \<^verbatim>\<open>binary.Read\<close> return at the end of the input, and \<open>Panic\<close> for a run-time
  panic (an index out of range), which ends the call without a result.
\<close>

datatype error =
    ErrInvalidFrame
  | ErrCRCFailed
  | ErrInvalidParameter
  | ErrInvalidSize
  | ErrNotImpl
  | EOF
  | ErrUnexpectedEOF
  | Panic

text \<open>\<^verbatim>\<open>binary.BigEndian\<close>: the most significant byte first.\<close>

definition be16 :: "uint16 \<Rightarrow> byte list" where
  "be16 w = [ucast (drop_bit 8 w), ucast w]"

definition be32 :: "uint32 \<Rightarrow> byte list" where
  "be32 w = [ucast (drop_bit 24 w), ucast (drop_bit 16 w), ucast (drop_bit 8 w), ucast w]"

definition u16_at :: "byte list \<Rightarrow> nat \<Rightarrow> uint16" where
  "u16_at s i = push_bit 8 (ucast (s ! i)) OR ucast (s ! (i + 1))"

definition u32_at :: "byte list \<Rightarrow> nat \<Rightarrow> uint32" where
  "u32_at s i =
     push_bit 24 (ucast (s ! i)) OR push_bit 16 (ucast (s ! (i + 1)))
       OR push_bit 8 (ucast (s ! (i + 2))) OR ucast (s ! (i + 3))"

section \<open>Checksum\<close>

text \<open>
  Modelled from the spec: \<^verbatim>\<open>CalcCRC\<close> calls \<^verbatim>\<open>crc16.Checksum\<close> of the library
  \<^verbatim>\<open>github.com/sigurn/crc16\<close>, which is not part of the source files, with the parameters
  polynomial \<open>0x1021\<close>, initial value \<open>0xFFFF\<close>, no input or output reflection and zero
  XOR-out. \<open>crc_bit\<close> is one shift of the register, \<open>crc_byte\<close> feeds one byte, most
  significant bit first.
\<close>

definition crc_bit :: "uint16 \<Rightarrow> uint16" where
  "crc_bit c = (if bit c 15 then push_bit 1 c XOR 0x1021 else push_bit 1 c)"

definition crc_byte :: "uint16 \<Rightarrow> byte \<Rightarrow> uint16" where
  "crc_byte c b = (crc_bit ^^ 8) (c XOR push_bit 8 (ucast b))"

definition CalcCRC :: "byte list \<Rightarrow> uint16" where
  "CalcCRC data = foldl crc_byte 0xFFFF data"

section \<open>Reading from a byte slice\<close>

text \<open>
  A \<^verbatim>\<open>bytes.Reader\<close> over \<open>s\<close> at position \<open>i\<close>. \<^verbatim>\<open>binary.Read\<close> of a fixed-size
  value fills it with \<^verbatim>\<open>io.ReadFull\<close>: \<open>EOF\<close> when no byte is left,
  \<open>ErrUnexpectedEOF\<close> when fewer are left than the value needs.
\<close>

definition read_u16 :: "byte list \<Rightarrow> nat \<Rightarrow> error + (uint16 \<times> nat)" where
  "read_u16 s i =
     (if length s \<le> i then Inl EOF
      else if length s < i + 2 then Inl ErrUnexpectedEOF
      else Inr (u16_at s i, i + 2))"

definition read_u32 :: "byte list \<Rightarrow> nat \<Rightarrow> error + (uint32 \<times> nat)" where
  "read_u32 s i =
     (if length s \<le> i then Inl EOF
      else if length s < i + 4 then Inl ErrUnexpectedEOF
      else Inr (u32_at s i, i + 4))"

text \<open>
  \<^verbatim>\<open>Reader.Read(b)\<close> with \<open>b = make([]byte, n)\<close>: \<open>EOF\<close> at the end of the input,
  otherwise it copies the bytes that are left, at most \<open>n\<close>, and the rest of \<open>b\<close> stays
  zero.
\<close>

definition read_bytes :: "byte list \<Rightarrow> nat \<Rightarrow> nat \<Rightarrow> error + (byte list \<times> nat)" where
  "read_bytes s i n =
     (if length s \<le> i then Inl EOF
      else let got = take n (drop i s)
           in Inr (got @ replicate (n - length got) 0, i + length got))"

text \<open>
  The source returns at the first error: \<^verbatim>\<open>if err := ...; err != nil { return err }\<close>.
  \<open>bind_err\<close> is this step where the call returns a result or an error, \<open>or_return\<close>
  where it returns the error beside the object \<open>h\<close> it has filled so far.
\<close>

definition bind_err :: "error + 'a \<Rightarrow> ('a \<Rightarrow> error + 'b) \<Rightarrow> error + 'b" where
  "bind_err m k = (case m of Inl e \<Rightarrow> Inl e | Inr x \<Rightarrow> k x)"

definition or_return :: "error + 'a \<Rightarrow> 'h \<Rightarrow> ('a \<Rightarrow> 'h \<times> error option) \<Rightarrow> 'h \<times> error option" where
  "or_return m h k = (case m of Inl e \<Rightarrow> (h, Some e) | Inr x \<Rightarrow> k x)"

section \<open>The common header\<close>

record C37118 =
  Sync :: uint16
  FrameSize :: uint16
  IDCode :: uint16
  SOC :: uint32
  FracSec :: uint32
  CHK :: uint16

definition FrameTypeData :: nat where "FrameTypeData = 0"
definition FrameTypeHeader :: nat where "FrameTypeHeader = 1"
definition FrameTypeCfg1 :: nat where "FrameTypeCfg1 = 2"
definition FrameTypeCfg2 :: nat where "FrameTypeCfg2 = 3"
definition FrameTypeCmd :: nat where "FrameTypeCmd = 4"
definition FrameTypeCfg3 :: nat where "FrameTypeCfg3 = 5"

definition SyncAA :: uint16 where "SyncAA = 0xAA"
definition SyncData :: uint16 where "SyncData = 0x01"
definition SyncHdr :: uint16 where "SyncHdr = 0x11"
definition SyncCfg1 :: uint16 where "SyncCfg1 = 0x21"
definition SyncCfg2 :: uint16 where "SyncCfg2 = 0x31"
definition SyncCmd :: uint16 where "SyncCmd = 0x41"

definition FreqNom50Hz :: uint16 where "FreqNom50Hz = 1"

text \<open>\<^verbatim>\<open>writeBinary(buf, c.Sync, c.FrameSize, c.IDCode, c.SOC, c.FracSec)\<close>.\<close>

definition write_header :: "'a C37118_scheme \<Rightarrow> byte list" where
  "write_header c =
     be16 (Sync c) @ be16 (FrameSize c) @ be16 (IDCode c) @ be32 (SOC c) @ be32 (FracSec c)"

section \<open>Header frames\<close>

record HeaderFrame = C37118 +
  Data :: gostring

definition NewHeaderFrame :: "uint16 \<Rightarrow> gostring \<Rightarrow> HeaderFrame" where
  "NewHeaderFrame idCode info =
     \<lparr>Sync = push_bit 8 SyncAA OR SyncHdr, FrameSize = 16, IDCode = idCode,
      SOC = 0, FracSec = 0, CHK = 0, Data = info\<rparr>"

text \<open>
  \<^verbatim>\<open>HeaderFrame.Pack\<close>. The size is \<^verbatim>\<open>uint16(16 + len(h.Data))\<close>, a conversion that
  wraps. Writing to a \<^verbatim>\<open>bytes.Buffer\<close> returns no error.
\<close>

definition HeaderFrame_Pack :: "HeaderFrame \<Rightarrow> error + byte list" where
  "HeaderFrame_Pack h =
     (let h1 = h\<lparr>FrameSize := of_nat (16 + length (Data h))\<rparr>;
          buf = write_header h1 @ Data h1
      in Inr (buf @ be16 (CalcCRC buf)))"

text \<open>
  \<^verbatim>\<open>HeaderFrame.Unpack\<close>: the frame as the call leaves it, and the error it returns.
\<close>

definition HeaderFrame_Unpack :: "HeaderFrame \<Rightarrow> byte list \<Rightarrow> HeaderFrame \<times> error option" where
  "HeaderFrame_Unpack h data =
     (if length data < 16 then (h, Some ErrInvalidSize)
      else
        or_return (read_u16 data 0) h (\<lambda>(sync, i1). let h1 = h\<lparr>Sync := sync\<rparr> in
        or_return (read_u16 data i1) h1 (\<lambda>(fs, i2). let h2 = h1\<lparr>FrameSize := fs\<rparr> in
        if fs < 16 then (h2, Some ErrInvalidSize)
        else
        or_return (read_u16 data i2) h2 (\<lambda>(idc, i3). let h3 = h2\<lparr>IDCode := idc\<rparr> in
        or_return (read_u32 data i3) h3 (\<lambda>(soc, i4). let h4 = h3\<lparr>SOC := soc\<rparr> in
        or_return (read_u32 data i4) h4 (\<lambda>(fr, i5). let h5 = h4\<lparr>FracSec := fr\<rparr> in
        let dataSize = unat fs - 16 in
        or_return
          (if 0 < dataSize \<and> dataSize < 65000
           then bind_err (read_bytes data i5 dataSize) (\<lambda>(bs, i6). Inr (h5\<lparr>Data := bs\<rparr>))
           else Inr h5) h5 (\<lambda>h6.
        or_return (read_u16 data (unat (fs - 2))) h6 (\<lambda>(chk, i7). let h7 = h6\<lparr>CHK := chk\<rparr> in
        if CalcCRC (take (unat (fs - 2)) data) \<noteq> chk then (h7, Some ErrCRCFailed)
        else (h7, None)))))))))"

section \<open>Command frames\<close>

text \<open>\<open>ExtraFrame\<close> is a byte slice; \<^verbatim>\<open>nil\<close> is the empty list.\<close>

record CommandFrame = C37118 +
  CMD :: uint16
  ExtraFrame :: "byte list"

definition NewCommandFrame :: CommandFrame where
  "NewCommandFrame =
     \<lparr>Sync = push_bit 8 SyncAA OR SyncCmd, FrameSize = 18, IDCode = 0,
      SOC = 0, FracSec = 0, CHK = 0, CMD = 0, ExtraFrame = []\<rparr>"

text \<open>\<^verbatim>\<open>CommandFrame.Pack\<close> writes \<open>FrameSize\<close> as the frame holds it.\<close>

definition CommandFrame_Pack :: "CommandFrame \<Rightarrow> error + byte list" where
  "CommandFrame_Pack c =
     (let buf = write_header c @ be16 (CMD c) @ ExtraFrame c
      in Inr (buf @ be16 (CalcCRC buf)))"

definition CommandFrame_Unpack :: "CommandFrame \<Rightarrow> byte list \<Rightarrow> CommandFrame \<times> error option" where
  "CommandFrame_Unpack c data =
     (if length data < 18 then (c, Some ErrInvalidSize)
      else
        or_return (read_u16 data 0) c (\<lambda>(sync, i1). let c1 = c\<lparr>Sync := sync\<rparr> in
        or_return (read_u16 data i1) c1 (\<lambda>(fs, i2). let c2 = c1\<lparr>FrameSize := fs\<rparr> in
        if fs < 18 then (c2, Some ErrInvalidSize)
        else
        or_return (read_u16 data i2) c2 (\<lambda>(idc, i3). let c3 = c2\<lparr>IDCode := idc\<rparr> in
        or_return (read_u32 data i3) c3 (\<lambda>(soc, i4). let c4 = c3\<lparr>SOC := soc\<rparr> in
        or_return (read_u32 data i4) c4 (\<lambda>(fr, i5). let c5 = c4\<lparr>FracSec := fr\<rparr> in
        or_return (read_u16 data i5) c5 (\<lambda>(cmd, i6). let c6 = c5\<lparr>CMD := cmd\<rparr> in
        let extraSize = unat fs - 18;
            c7 = (if 0 < extraSize \<and> extraSize < 65518
                  then c6\<lparr>ExtraFrame := replicate extraSize 0\<rparr> else c6) in
        or_return
          (if 0 < extraSize \<and> extraSize < 65518
           then read_bytes data i6 extraSize else Inr (ExtraFrame c6, i6)) c7 (\<lambda>(bs, i7).
        let c8 = c7\<lparr>ExtraFrame := bs\<rparr> in
        or_return (read_u16 data i7) c8 (\<lambda>(chk, i8). let c9 = c8\<lparr>CHK := chk\<rparr> in
        if CalcCRC (take (unat (fs - 2)) data) \<noteq> chk then (c9, Some ErrCRCFailed)
        else (c9, None))))))))))"

section \<open>Library functions outside the source\<close>

text \<open>
  Go's \<^verbatim>\<open>float32\<close> and \<^verbatim>\<open>float64\<close> values are modelled by the real numbers they
  denote and their arithmetic by exact arithmetic; rounding, infinities and NaN are not
  modelled. Three library functions whose results depend on what is left out are
  parameters of the model: \<^verbatim>\<open>strings.TrimSpace\<close> (Unicode white space),
  \<^verbatim>\<open>math.Float32bits\<close> after the conversion to \<^verbatim>\<open>float32\<close>, which is what
  \<^verbatim>\<open>binary.Write\<close> puts on the wire for a float, and \<^verbatim>\<open>math.Float32frombits\<close>.
\<close>

record golib =
  TrimSpace :: "gostring \<Rightarrow> gostring"
  Float32bits :: "real \<Rightarrow> uint32"
  Float32frombits :: "uint32 \<Rightarrow> real"

text \<open>
  The conversions \<^verbatim>\<open>int16(x)\<close> and \<^verbatim>\<open>uint16(x)\<close> of a float truncate towards
  zero. For a value outside the target's range Go leaves the result to the
  implementation; the model keeps the low 16 bits of the truncated value.
\<close>

definition trunc :: "real \<Rightarrow> int" where
  "trunc x = (if x < 0 then - \<lfloor>- x\<rfloor> else \<lfloor>x\<rfloor>)"

definition to_int16 :: "real \<Rightarrow> uint16" where
  "to_int16 x = word_of_int (trunc x)"

definition to_uint16 :: "real \<Rightarrow> uint16" where
  "to_uint16 x = word_of_int (trunc x)"

definition of_int16 :: "uint16 \<Rightarrow> real" where
  "of_int16 w = real_of_int (sint w)"

definition of_uint16 :: "uint16 \<Rightarrow> real" where
  "of_uint16 w = real (unat w)"

text \<open>\<^verbatim>\<open>cmplx.Rect(r, \<theta>)\<close>; \<^verbatim>\<open>cmplx.Abs\<close> is \<open>cmod\<close> and \<^verbatim>\<open>cmplx.Phase\<close> is \<open>Arg\<close>.\<close>

definition Rect :: "real \<Rightarrow> real \<Rightarrow> complex" where
  "Rect r t = Complex (r * cos t) (r * sin t)"

text \<open>\<^verbatim>\<open>padString\<close>: cut or pad with spaces to 16 bytes.\<close>

definition padString :: "gostring \<Rightarrow> gostring" where
  "padString s = (if length s \<ge> 16 then take 16 s else s @ replicate (16 - length s) 0x20)"

section \<open>Stations\<close>

record PMUStation = C37118 +
  STN :: gostring
  Format :: uint16
  Phnmr :: uint16
  Annmr :: uint16
  Dgnmr :: uint16
  CHNAMPhasor :: "gostring list"
  CHNAMAnalog :: "gostring list"
  CHNAMDigital :: "gostring list"
  Phunit :: "uint32 list"
  Anunit :: "uint32 list"
  Dgunit :: "uint32 list"
  Fnom :: uint16
  CfgCnt :: uint16
  Stat :: uint16
  PhasorValues :: "complex list"
  AnalogValues :: "real list"
  DigitalValues :: "bool list list"
  Freq :: real
  DFreq :: real

definition SetFormat :: "bool \<Rightarrow> bool \<Rightarrow> bool \<Rightarrow> bool \<Rightarrow> uint16" where
  "SetFormat freqType analogType phasorType coordType =
     (let f0 = 0;
          f1 = (if coordType then f0 OR 1 else f0);
          f2 = (if phasorType then f1 OR push_bit 1 1 else f1);
          f3 = (if analogType then f2 OR push_bit 2 1 else f2)
      in (if freqType then f3 OR push_bit 3 1 else f3))"

definition NewPMUStation ::
  "gostring \<Rightarrow> uint16 \<Rightarrow> bool \<Rightarrow> bool \<Rightarrow> bool \<Rightarrow> bool \<Rightarrow> PMUStation" where
  "NewPMUStation name idCode freqType analogType phasorType coordType =
     \<lparr>Sync = 0, FrameSize = 0, IDCode = idCode, SOC = 0, FracSec = 0, CHK = 0,
      STN = name, Format = SetFormat freqType analogType phasorType coordType,
      Phnmr = 0, Annmr = 0, Dgnmr = 0,
      CHNAMPhasor = [], CHNAMAnalog = [], CHNAMDigital = [],
      Phunit = [], Anunit = [], Dgunit = [],
      Fnom = 0, CfgCnt = 0, Stat = 0,
      PhasorValues = [], AnalogValues = [], DigitalValues = [],
      Freq = 0, DFreq = 0\<rparr>"

definition FormatCoord :: "PMUStation \<Rightarrow> bool" where
  "FormatCoord p = (Format p AND 0x01 \<noteq> 0)"

definition FormatPhasorType :: "PMUStation \<Rightarrow> bool" where
  "FormatPhasorType p = (Format p AND 0x02 \<noteq> 0)"

definition FormatAnalogType :: "PMUStation \<Rightarrow> bool" where
  "FormatAnalogType p = (Format p AND 0x04 \<noteq> 0)"

definition FormatFreqType :: "PMUStation \<Rightarrow> bool" where
  "FormatFreqType p = (Format p AND 0x08 \<noteq> 0)"

definition AddPhasor :: "PMUStation \<Rightarrow> gostring \<Rightarrow> uint32 \<Rightarrow> byte \<Rightarrow> PMUStation" where
  "AddPhasor p name factor phType =
     p\<lparr>CHNAMPhasor := CHNAMPhasor p @ [padString name],
       Phunit := Phunit p @ [push_bit 24 (ucast phType) OR (factor AND 0x0FFFFFF)],
       Phnmr := Phnmr p + 1,
       PhasorValues := PhasorValues p @ [0]\<rparr>"

definition AddAnalog :: "PMUStation \<Rightarrow> gostring \<Rightarrow> uint32 \<Rightarrow> byte \<Rightarrow> PMUStation" where
  "AddAnalog p name factor anType =
     p\<lparr>CHNAMAnalog := CHNAMAnalog p @ [padString name],
       Anunit := Anunit p @ [push_bit 24 (ucast anType) OR (factor AND 0x0FFFFFF)],
       Annmr := Annmr p + 1,
       AnalogValues := AnalogValues p @ [0]\<rparr>"

definition AddDigital :: "PMUStation \<Rightarrow> gostring list \<Rightarrow> uint16 \<Rightarrow> uint16 \<Rightarrow> PMUStation" where
  "AddDigital p names normal valid =
     p\<lparr>CHNAMDigital := CHNAMDigital p @ map padString names,
       Dgunit := Dgunit p @ [push_bit 16 (ucast normal) OR ucast valid],
       Dgnmr := Dgnmr p + 1,
       DigitalValues := DigitalValues p @ [replicate 16 False]\<rparr>"

definition GetPhasorFactor :: "PMUStation \<Rightarrow> nat \<Rightarrow> uint32" where
  "GetPhasorFactor p index =
     (if index \<ge> length (Phunit p) then 1 else (Phunit p ! index) AND 0x0FFFFFF)"

definition GetNominalFrequency :: "PMUStation \<Rightarrow> real" where
  "GetNominalFrequency p = (if Fnom p = FreqNom50Hz then 50 else 60)"

section \<open>Configuration frames\<close>

text \<open>
  Stations are objects that the source reaches through pointers (\<^verbatim>\<open>*PMUStation\<close>). The
  store is the list of the station objects that exist, a pointer is an index into it, and
  an index that the store does not have is a \<^verbatim>\<open>nil\<close> pointer: reading a field through it
  panics. Two pointers are the same object when they are the same index.
\<close>

type_synonym station_ref = nat
type_synonym store = "PMUStation list"

text \<open>The objects a loop \<^verbatim>\<open>for _, pmu := range list\<close> reads, one per pointer.\<close>

definition stations_of :: "store \<Rightarrow> station_ref list \<Rightarrow> error + PMUStation list" where
  "stations_of h refs =
     (if list_all (\<lambda>r. r < length h) refs then Inr (map (\<lambda>r. h ! r) refs) else Inl Panic)"

text \<open>
  \<open>PMUStationList\<close> is \<^verbatim>\<open>[]*PMUStation\<close>, a list of pointers, which may hold one station
  more than once. \<open>DataRate\<close> is an \<^verbatim>\<open>int16\<close>, kept as its 16 bits.
  A \<^verbatim>\<open>Config1Frame\<close> embeds a \<^verbatim>\<open>ConfigFrame\<close> and adds nothing.
\<close>

record ConfigFrame = C37118 +
  TimeBase :: uint32
  NumPMU :: uint16
  DataRate :: uint16
  PMUStationList :: "station_ref list"

definition NewConfigFrame :: ConfigFrame where
  "NewConfigFrame =
     \<lparr>Sync = push_bit 8 SyncAA OR SyncCfg2, FrameSize = 0, IDCode = 0, SOC = 0,
      FracSec = 0, CHK = 0, TimeBase = 0, NumPMU = 0, DataRate = 0, PMUStationList = []\<rparr>"

definition NewConfig1Frame :: ConfigFrame where
  "NewConfig1Frame =
     \<lparr>Sync = push_bit 8 SyncAA OR SyncCfg1, FrameSize = 0, IDCode = 0, SOC = 0,
      FracSec = 0, CHK = 0, TimeBase = 0, NumPMU = 0, DataRate = 0, PMUStationList = []\<rparr>"

definition AddPMUStation :: "ConfigFrame \<Rightarrow> station_ref \<Rightarrow> ConfigFrame" where
  "AddPMUStation c pmu =
     c\<lparr>PMUStationList := PMUStationList c @ [pmu], NumPMU := NumPMU c + 1\<rparr>"

text \<open>The size of a configuration frame, added up in \<^verbatim>\<open>uint16\<close>.\<close>

definition config_station_size :: "PMUStation \<Rightarrow> uint16" where
  "config_station_size pmu =
     30 + 16 * (Phnmr pmu + Annmr pmu + 16 * Dgnmr pmu)
        + 4 * (Phnmr pmu + Annmr pmu + Dgnmr pmu)"

definition config_frame_size :: "PMUStation list \<Rightarrow> uint16" where
  "config_frame_size pmus = foldl (\<lambda>size pmu. size + config_station_size pmu) 24 pmus"

text \<open>The bytes \<^verbatim>\<open>ConfigFrame.Pack\<close> writes for one station.\<close>

definition pack_config_station :: "PMUStation \<Rightarrow> byte list" where
  "pack_config_station pmu =
     padString (STN pmu)
     @ be16 (IDCode pmu) @ be16 (Format pmu)
     @ be16 (Phnmr pmu) @ be16 (Annmr pmu) @ be16 (Dgnmr pmu)
     @ concat (map padString (CHNAMPhasor pmu))
     @ concat (map padString (CHNAMAnalog pmu))
     @ concat (map (\<lambda>i. if i < length (CHNAMDigital pmu)
                           then padString (CHNAMDigital pmu ! i) else padString [])
                 [0 ..< unat (Dgnmr pmu * 16)])
     @ concat (map be32 (Phunit pmu))
     @ concat (map be32 (Anunit pmu))
     @ concat (map be32 (Dgunit pmu))
     @ be16 (Fnom pmu) @ be16 (CfgCnt pmu)"

definition ConfigFrame_Pack :: "ConfigFrame \<Rightarrow> store \<Rightarrow> error + byte list" where
  "ConfigFrame_Pack c h =
     bind_err (stations_of h (PMUStationList c)) (\<lambda>pmus.
     let c1 = c\<lparr>FrameSize := config_frame_size pmus\<rparr>;
         buf = write_header c1 @ be32 (TimeBase c1) @ be16 (NumPMU c1)
               @ concat (map pack_config_station pmus)
               @ be16 (DataRate c1)
     in Inr (buf @ be16 (CalcCRC buf)))"

text \<open>\<^verbatim>\<open>buf.Size() - int64(buf.Len())\<close>: the reader's position, at most the size.\<close>

definition reader_pos :: "byte list \<Rightarrow> nat \<Rightarrow> nat" where
  "reader_pos s i = length s - (if length s \<le> i then 0 else length s - i)"

fun read_u32s :: "byte list \<Rightarrow> nat \<Rightarrow> nat \<Rightarrow> error + (uint32 list \<times> nat)" where
  "read_u32s s i 0 = Inr ([], i)"
| "read_u32s s i (Suc n) =
     bind_err (read_u32 s i) (\<lambda>(v, i1).
     bind_err (read_u32s s i1 n) (\<lambda>(vs, i2). Inr (v # vs, i2)))"

fun read_names :: "golib \<Rightarrow> byte list \<Rightarrow> nat \<Rightarrow> nat \<Rightarrow> error + (gostring list \<times> nat)" where
  "read_names L s i 0 = Inr ([], i)"
| "read_names L s i (Suc n) =
     bind_err (read_bytes s i 16) (\<lambda>(nameBytes, i1).
     bind_err (read_names L s i1 n) (\<lambda>(names, i2). Inr (TrimSpace L nameBytes # names, i2)))"

text \<open>
  \<^verbatim>\<open>readChannelNames\<close>: the phasor, analog and digital names, in this order, from
  position \<open>i\<close>.
\<close>

definition readChannelNames ::
  "golib \<Rightarrow> byte list \<Rightarrow> nat \<Rightarrow> uint16 \<Rightarrow> uint16 \<Rightarrow> uint16
     \<Rightarrow> error + (gostring list \<times> gostring list \<times> gostring list)" where
  "readChannelNames L s i phnmr annmr dgnmr =
     bind_err (read_names L s i (unat phnmr)) (\<lambda>(ph, i1).
     bind_err (read_names L s i1 (unat annmr)) (\<lambda>(an, i2).
     bind_err (read_names L s i2 (unat (16 * dgnmr))) (\<lambda>(dg, i3). Inr (ph, an, dg))))"

text \<open>
  \<^verbatim>\<open>unpackPMUStation\<close>: the station read at position \<open>i0\<close> and the position after
  it, or the error. The units are read first, past the channel names, then the names.
\<close>

definition unpackPMUStation :: "golib \<Rightarrow> byte list \<Rightarrow> nat \<Rightarrow> error + (PMUStation \<times> nat)" where
  "unpackPMUStation L s i0 =
     bind_err (read_bytes s i0 16) (\<lambda>(stnBytes, i1).
     bind_err (read_u16 s i1) (\<lambda>(idc, i2).
     bind_err (read_u16 s i2) (\<lambda>(fmt, i3).
     bind_err (read_u16 s i3) (\<lambda>(phnmr, i4).
     bind_err (read_u16 s i4) (\<lambda>(annmr, i5).
     bind_err (read_u16 s i5) (\<lambda>(dgnmr, i6).
     if phnmr > 1000 \<or> annmr > 1000 \<or> dgnmr > 100 then Inl ErrInvalidSize
     else
     let channelBytes = 16 * (phnmr + annmr + 16 * dgnmr);
         channelPos = reader_pos s i6;
         i7 = i6 + unat channelBytes in
     bind_err (read_u32s s i7 (unat phnmr)) (\<lambda>(phunit, i8).
     bind_err (read_u32s s i8 (unat annmr)) (\<lambda>(anunit, i9).
     bind_err (read_u32s s i9 (unat dgnmr)) (\<lambda>(dgunit, i10).
     bind_err (read_u16 s i10) (\<lambda>(fnom, i11).
     bind_err (read_u16 s i11) (\<lambda>(cfgcnt, i12).
     let currentPos = reader_pos s i12 in
     bind_err (readChannelNames L s channelPos phnmr annmr dgnmr) (\<lambda>(ph, an, dg).
       Inr (\<lparr>Sync = 0, FrameSize = 0, IDCode = idc, SOC = 0, FracSec = 0, CHK = 0,
             STN = TrimSpace L stnBytes, Format = fmt,
             Phnmr = phnmr, Annmr = annmr, Dgnmr = dgnmr,
             CHNAMPhasor = ph, CHNAMAnalog = an, CHNAMDigital = dg,
             Phunit = phunit, Anunit = anunit, Dgunit = dgunit,
             Fnom = fnom, CfgCnt = cfgcnt, Stat = 0,
             PhasorValues = replicate (unat phnmr) 0,
             AnalogValues = replicate (unat annmr) 0,
             DigitalValues = replicate (unat dgnmr) (replicate 16 False),
             Freq = 0, DFreq = 0\<rparr>, currentPos)))))))))))))"

text \<open>
  The station loop of \<^verbatim>\<open>ConfigFrame.Unpack\<close>, \<open>n\<close> stations still to read. Every station
  it reads is a new object, at the end of the store. The loop returns the frame and the
  store as it leaves them, and the position or the error.
\<close>

fun unpack_config_stations ::
  "golib \<Rightarrow> byte list \<Rightarrow> ConfigFrame \<Rightarrow> nat \<Rightarrow> nat \<Rightarrow> store
     \<Rightarrow> (ConfigFrame \<times> store) \<times> (error + nat)" where
  "unpack_config_stations L s c i 0 h = ((c, h), Inr i)"
| "unpack_config_stations L s c i (Suc n) h =
     (case unpackPMUStation L s i of
        Inl e \<Rightarrow> ((c, h), Inl e)
      | Inr (pmu, i1) \<Rightarrow>
          unpack_config_stations L s (AddPMUStation c (length h)) i1 n (h @ [pmu]))"

text \<open>
  \<^verbatim>\<open>ConfigFrame.Unpack\<close>: the frame and the store as the call leaves them, and the error
  it returns.
\<close>

definition ConfigFrame_Unpack ::
  "golib \<Rightarrow> ConfigFrame \<Rightarrow> byte list \<Rightarrow> store \<Rightarrow> (ConfigFrame \<times> store) \<times> error option" where
  "ConfigFrame_Unpack L c data h =
     (if length data < 24 then ((c, h), Some ErrInvalidSize)
      else
        or_return (read_u16 data 0) (c, h) (\<lambda>(sync, i1). let c1 = c\<lparr>Sync := sync\<rparr> in
        or_return (read_u16 data i1) (c1, h) (\<lambda>(fs, i2). let c2 = c1\<lparr>FrameSize := fs\<rparr> in
        if fs < 24 then ((c2, h), Some ErrInvalidSize)
        else
        or_return (read_u16 data i2) (c2, h) (\<lambda>(idc, i3). let c3 = c2\<lparr>IDCode := idc\<rparr> in
        or_return (read_u32 data i3) (c3, h) (\<lambda>(soc, i4). let c4 = c3\<lparr>SOC := soc\<rparr> in
        or_return (read_u32 data i4) (c4, h) (\<lambda>(fr, i5). let c5 = c4\<lparr>FracSec := fr\<rparr> in
        or_return (read_u32 data i5) (c5, h) (\<lambda>(tb, i6). let c6 = c5\<lparr>TimeBase := tb\<rparr> in
        or_return (read_u16 data i6) (c6, h) (\<lambda>(numPMU, i7).
        if numPMU > 1000 then ((c6, h), Some ErrInvalidSize)
        else
        let ((c7, h1), r) = unpack_config_stations L data c6 i7 (unat numPMU) h in
        or_return r (c7, h1) (\<lambda>i8.
        or_return (read_u16 data i8) (c7, h1) (\<lambda>(rate, i9). let c8 = c7\<lparr>DataRate := rate\<rparr> in
        or_return (read_u16 data (unat (fs - 2))) (c8, h1) (\<lambda>(chk, i10). let c9 = c8\<lparr>CHK := chk\<rparr> in
        if CalcCRC (take (unat (fs - 2)) data) \<noteq> chk then ((c9, h1), Some ErrCRCFailed)
        else ((c9, h1), None))))))))))))"

section \<open>Data frames\<close>

text \<open>
  \<open>AssociatedConfig\<close> is a pointer to the directory, \<^verbatim>\<open>nil\<close> is \<open>None\<close>. The data
  frame functions do not write to the directory's own fields, so the model holds its value;
  what \<^verbatim>\<open>Unpack\<close> writes into the stations it writes into the store, where every holder
  of a pointer to the station sees it.
\<close>

record DataFrame = C37118 +
  AssociatedConfig :: "ConfigFrame option"

definition NewDataFrame :: "ConfigFrame option \<Rightarrow> DataFrame" where
  "NewDataFrame cfg =
     \<lparr>Sync = push_bit 8 SyncAA OR SyncData, FrameSize = 0, IDCode = 0, SOC = 0,
      FracSec = 0, CHK = 0, AssociatedConfig = cfg\<rparr>"

text \<open>The size of a data frame, added up in \<^verbatim>\<open>uint16\<close>.\<close>

definition data_station_size :: "PMUStation \<Rightarrow> uint16" where
  "data_station_size pmu =
     2 + (if FormatPhasorType pmu then 8 * Phnmr pmu else 4 * Phnmr pmu)
       + (if FormatFreqType pmu then 8 else 4)
       + (if FormatAnalogType pmu then 4 * Annmr pmu else 2 * Annmr pmu)
       + 2 * Dgnmr pmu"

definition data_frame_size :: "PMUStation list \<Rightarrow> uint16" where
  "data_frame_size pmus = foldl (\<lambda>size pmu. size + data_station_size pmu) 14 pmus + 2"

text \<open>The eight or four bytes of phasor \<open>j\<close>.\<close>

definition pack_phasor :: "golib \<Rightarrow> PMUStation \<Rightarrow> nat \<Rightarrow> byte list" where
  "pack_phasor L pmu j =
     (let v = PhasorValues pmu ! j in
      if FormatPhasorType pmu then
        (if FormatCoord pmu
         then be32 (Float32bits L (cmod v)) @ be32 (Float32bits L (Arg v))
         else be32 (Float32bits L (Re v)) @ be32 (Float32bits L (Im v)))
      else
        (if FormatCoord pmu
         then be16 (to_uint16 (cmod v * 100000 / real (unat (GetPhasorFactor pmu j))))
              @ be16 (to_int16 (Arg v * 10000))
         else be16 (to_int16 (Re v * 100000 / real (unat (GetPhasorFactor pmu j))))
              @ be16 (to_int16 (Im v * 100000 / real (unat (GetPhasorFactor pmu j))))))"

definition pack_freq :: "golib \<Rightarrow> PMUStation \<Rightarrow> byte list" where
  "pack_freq L pmu =
     (if FormatFreqType pmu
      then be32 (Float32bits L (Freq pmu)) @ be32 (Float32bits L (DFreq pmu))
      else (let freqOffset = Freq pmu - GetNominalFrequency pmu
            in be16 (to_int16 (freqOffset * 1000)) @ be16 (to_int16 (DFreq pmu * 100))))"

definition pack_analog :: "golib \<Rightarrow> PMUStation \<Rightarrow> nat \<Rightarrow> byte list" where
  "pack_analog L pmu j =
     (if FormatAnalogType pmu
      then be32 (Float32bits L (AnalogValues pmu ! j))
      else be16 (to_int16 (AnalogValues pmu ! j)))"

text \<open>Bit \<open>k\<close> of a digital word is channel \<open>k\<close> of the word.\<close>

definition digital_word :: "bool list \<Rightarrow> uint16" where
  "digital_word bs = fold (\<lambda>k w. if bs ! k then w OR push_bit k 1 else w) [0 ..< 16] 0"

definition digital_bits :: "uint16 \<Rightarrow> bool list \<Rightarrow> bool list" where
  "digital_bits w bs = fold (\<lambda>k b. b[k := (w AND push_bit k 1 \<noteq> 0)]) [0 ..< 16] bs"

text \<open>
  The bytes \<^verbatim>\<open>DataFrame.Pack\<close> writes for one station. Reading a value at an index the
  slice does not have panics.
\<close>

definition pack_data_station :: "golib \<Rightarrow> PMUStation \<Rightarrow> error + byte list" where
  "pack_data_station L pmu =
     (if length (PhasorValues pmu) < unat (Phnmr pmu) then Inl Panic
      else if length (AnalogValues pmu) < unat (Annmr pmu) then Inl Panic
      else if \<not> list_all (\<lambda>j. j < length (DigitalValues pmu) \<and> 16 \<le> length (DigitalValues pmu ! j))
                   [0 ..< unat (Dgnmr pmu)] then Inl Panic
      else Inr (be16 (Stat pmu)
                @ concat (map (pack_phasor L pmu) [0 ..< unat (Phnmr pmu)])
                @ pack_freq L pmu
                @ concat (map (pack_analog L pmu) [0 ..< unat (Annmr pmu)])
                @ concat (map (\<lambda>j. be16 (digital_word (DigitalValues pmu ! j)))
                            [0 ..< unat (Dgnmr pmu)])))"

fun pack_data_stations :: "golib \<Rightarrow> PMUStation list \<Rightarrow> error + byte list" where
  "pack_data_stations L [] = Inr []"
| "pack_data_stations L (pmu # pmus) =
     bind_err (pack_data_station L pmu) (\<lambda>bs.
     bind_err (pack_data_stations L pmus) (\<lambda>rest. Inr (bs @ rest)))"

definition DataFrame_Pack :: "golib \<Rightarrow> DataFrame \<Rightarrow> store \<Rightarrow> error + byte list" where
  "DataFrame_Pack L d h =
     (case AssociatedConfig d of
        None \<Rightarrow> Inl ErrInvalidParameter
      | Some cfg \<Rightarrow>
          bind_err (stations_of h (PMUStationList cfg)) (\<lambda>pmus.
          let d1 = d\<lparr>FrameSize := data_frame_size pmus\<rparr> in
          bind_err (pack_data_stations L pmus) (\<lambda>body.
          let buf = write_header d1 @ body in Inr (buf @ be16 (CalcCRC buf)))))"

text \<open>
  Decoding. A step of \<^verbatim>\<open>DataFrame.Unpack\<close> returns the station as it has been written so
  far, and the new position or the error; \<open>and_then\<close> goes on after a step without error.
  The station loop takes the pointers in their order and writes each station into the
  store before it goes on to the next pointer, so a station that the list holds twice is
  decoded twice, the second time over the values of the first.
\<close>

definition and_then ::
  "'p \<times> (error + nat) \<Rightarrow> ('p \<Rightarrow> nat \<Rightarrow> 'p \<times> (error + nat)) \<Rightarrow> 'p \<times> (error + nat)" where
  "and_then r k = (case r of (p, Inl e) \<Rightarrow> (p, Inl e) | (p, Inr i) \<Rightarrow> k p i)"

definition read_phasor :: "golib \<Rightarrow> PMUStation \<Rightarrow> byte list \<Rightarrow> nat \<Rightarrow> nat \<Rightarrow> error + (complex \<times> nat)" where
  "read_phasor L pmu s i j =
     (if FormatPhasorType pmu then
        bind_err (read_u32 s i) (\<lambda>(val1, i1).
        bind_err (read_u32 s i1) (\<lambda>(val2, i2).
          Inr (if FormatCoord pmu
               then Rect (Float32frombits L val1) (Float32frombits L val2)
               else Complex (Float32frombits L val1) (Float32frombits L val2), i2)))
      else if FormatCoord pmu then
        bind_err (read_u16 s i) (\<lambda>(mag, i1).
        bind_err (read_u16 s i1) (\<lambda>(ang, i2).
          Inr (Rect (of_uint16 mag * real (unat (GetPhasorFactor pmu j)) / 100000)
                    (of_int16 ang / 10000), i2)))
      else
        bind_err (read_u16 s i) (\<lambda>(re, i1).
        bind_err (read_u16 s i1) (\<lambda>(im, i2).
          Inr (Complex (of_int16 re * real (unat (GetPhasorFactor pmu j)) / 100000)
                       (of_int16 im * real (unat (GetPhasorFactor pmu j)) / 100000), i2))))"

fun unpack_phasors ::
  "golib \<Rightarrow> byte list \<Rightarrow> PMUStation \<Rightarrow> nat \<Rightarrow> nat \<Rightarrow> nat \<Rightarrow> PMUStation \<times> (error + nat)" where
  "unpack_phasors L s pmu i j 0 = (pmu, Inr i)"
| "unpack_phasors L s pmu i j (Suc n) =
     (case read_phasor L pmu s i j of
        Inl e \<Rightarrow> (pmu, Inl e)
      | Inr (v, i1) \<Rightarrow>
          if j \<ge> length (PhasorValues pmu) then (pmu, Inl Panic)
          else unpack_phasors L s (pmu\<lparr>PhasorValues := (PhasorValues pmu)[j := v]\<rparr>) i1 (Suc j) n)"

definition unpack_freq :: "golib \<Rightarrow> byte list \<Rightarrow> PMUStation \<Rightarrow> nat \<Rightarrow> PMUStation \<times> (error + nat)" where
  "unpack_freq L s pmu i =
     (if FormatFreqType pmu then
        (case read_u32 s i of
           Inl e \<Rightarrow> (pmu, Inl e)
         | Inr (v1, i1) \<Rightarrow>
             (let pmu1 = pmu\<lparr>Freq := Float32frombits L v1\<rparr> in
              case read_u32 s i1 of
                Inl e \<Rightarrow> (pmu1, Inl e)
              | Inr (v2, i2) \<Rightarrow> (pmu1\<lparr>DFreq := Float32frombits L v2\<rparr>, Inr i2)))
      else
        (case bind_err (read_u16 s i) (\<lambda>(freqInt, i1).
              bind_err (read_u16 s i1) (\<lambda>(dfreqInt, i2). Inr (freqInt, dfreqInt, i2))) of
           Inl e \<Rightarrow> (pmu, Inl e)
         | Inr (freqInt, dfreqInt, i2) \<Rightarrow>
             (pmu\<lparr>Freq := GetNominalFrequency pmu + of_int16 freqInt / 1000,
                  DFreq := of_int16 dfreqInt / 100\<rparr>, Inr i2)))"

fun unpack_analogs ::
  "golib \<Rightarrow> byte list \<Rightarrow> PMUStation \<Rightarrow> nat \<Rightarrow> nat \<Rightarrow> nat \<Rightarrow> PMUStation \<times> (error + nat)" where
  "unpack_analogs L s pmu i j 0 = (pmu, Inr i)"
| "unpack_analogs L s pmu i j (Suc n) =
     (if FormatAnalogType pmu then
        (if j \<ge> length (AnalogValues pmu) then (pmu, Inl Panic)
         else case read_u32 s i of
            Inl e \<Rightarrow> (pmu, Inl e)
          | Inr (v, i1) \<Rightarrow>
              unpack_analogs L s
                (pmu\<lparr>AnalogValues := (AnalogValues pmu)[j := Float32frombits L v]\<rparr>) i1 (Suc j) n)
      else
        (case read_u16 s i of
           Inl e \<Rightarrow> (pmu, Inl e)
         | Inr (analogInt, i1) \<Rightarrow>
             if j \<ge> length (AnalogValues pmu) then (pmu, Inl Panic)
             else unpack_analogs L s
                (pmu\<lparr>AnalogValues := (AnalogValues pmu)[j := of_int16 analogInt]\<rparr>) i1 (Suc j) n))"

fun unpack_digitals ::
  "byte list \<Rightarrow> PMUStation \<Rightarrow> nat \<Rightarrow> nat \<Rightarrow> nat \<Rightarrow> PMUStation \<times> (error + nat)" where
  "unpack_digitals s pmu i j 0 = (pmu, Inr i)"
| "unpack_digitals s pmu i j (Suc n) =
     (case read_u16 s i of
        Inl e \<Rightarrow> (pmu, Inl e)
      | Inr (digWord, i1) \<Rightarrow>
          if j \<ge> length (DigitalValues pmu) \<or> length (DigitalValues pmu ! j) < 16
          then (pmu, Inl Panic)
          else unpack_digitals s
             (pmu\<lparr>DigitalValues :=
                    (DigitalValues pmu)[j := digital_bits digWord (DigitalValues pmu ! j)]\<rparr>)
             i1 (Suc j) n)"

definition unpack_data_station ::
  "golib \<Rightarrow> byte list \<Rightarrow> PMUStation \<Rightarrow> nat \<Rightarrow> PMUStation \<times> (error + nat)" where
  "unpack_data_station L s pmu i =
     (case read_u16 s i of
        Inl e \<Rightarrow> (pmu, Inl e)
      | Inr (st, i1) \<Rightarrow>
          and_then (unpack_phasors L s (pmu\<lparr>Stat := st\<rparr>) i1 0 (unat (Phnmr pmu))) (\<lambda>pmu2 i2.
          and_then (unpack_freq L s pmu2 i2) (\<lambda>pmu3 i3.
          and_then (unpack_analogs L s pmu3 i3 0 (unat (Annmr pmu3))) (\<lambda>pmu4 i4.
          unpack_digitals s pmu4 i4 0 (unat (Dgnmr pmu4))))))"

fun unpack_data_stations ::
  "golib \<Rightarrow> byte list \<Rightarrow> station_ref list \<Rightarrow> nat \<Rightarrow> store \<Rightarrow> store \<times> (error + nat)" where
  "unpack_data_stations L s [] i h = (h, Inr i)"
| "unpack_data_stations L s (r # refs) i h =
     (if length h \<le> r then (h, Inl Panic)
      else case unpack_data_station L s (h ! r) i of
        (pmu1, Inl e) \<Rightarrow> (h[r := pmu1], Inl e)
      | (pmu1, Inr i1) \<Rightarrow> unpack_data_stations L s refs i1 (h[r := pmu1]))"

text \<open>
  \<^verbatim>\<open>DataFrame.Unpack\<close>: the frame and the store as the call leaves them, and the error it
  returns.
\<close>

definition DataFrame_Unpack ::
  "golib \<Rightarrow> DataFrame \<Rightarrow> byte list \<Rightarrow> store \<Rightarrow> (DataFrame \<times> store) \<times> error option" where
  "DataFrame_Unpack L d data h =
     (case AssociatedConfig d of
        None \<Rightarrow> ((d, h), Some ErrInvalidParameter)
      | Some cfg \<Rightarrow>
        if length data < 16 then ((d, h), Some ErrInvalidSize)
        else
        or_return (read_u16 data 0) (d, h) (\<lambda>(sync, i1). let d1 = d\<lparr>Sync := sync\<rparr> in
        or_return (read_u16 data i1) (d1, h) (\<lambda>(fs, i2). let d2 = d1\<lparr>FrameSize := fs\<rparr> in
        if fs < 16 then ((d2, h), Some ErrInvalidSize)
        else
        or_return (read_u16 data i2) (d2, h) (\<lambda>(idc, i3). let d3 = d2\<lparr>IDCode := idc\<rparr> in
        or_return (read_u32 data i3) (d3, h) (\<lambda>(soc, i4). let d4 = d3\<lparr>SOC := soc\<rparr> in
        or_return (read_u32 data i4) (d4, h) (\<lambda>(fr, i5). let d5 = d4\<lparr>FracSec := fr\<rparr> in
        let (h1, r) = unpack_data_stations L data (PMUStationList cfg) i5 h in
        or_return r (d5, h1) (\<lambda>i6.
        or_return (read_u16 data (unat (fs - 2))) (d5, h1) (\<lambda>(chk, i7). let d7 = d5\<lparr>CHK := chk\<rparr> in
        if CalcCRC (take (unat (fs - 2)) data) \<noteq> chk then ((d7, h1), Some ErrCRCFailed)
        else ((d7, h1), None)))))))))"

section \<open>Dispatch on the frame type\<close>

definition GetFrameType :: "byte list \<Rightarrow> error + nat" where
  "GetFrameType data =
     (if length data < 2 then Inl ErrInvalidSize
      else if ucast (data ! 0) \<noteq> SyncAA then Inl ErrInvalidFrame
      else Inr (unat (drop_bit 4 (data ! 1) AND 0x07)))"

text \<open>
  What \<^verbatim>\<open>UnpackFrame\<close> returns: the frame object, of the dynamic type the call
  created (\<open>None\<close> for \<^verbatim>\<open>nil\<close>), and the error; with the frame, the model returns the
  store as the call leaves it.
\<close>

datatype frame =
    FrameData DataFrame
  | FrameHeader HeaderFrame
  | FrameConfig1 ConfigFrame
  | FrameConfig ConfigFrame
  | FrameCommand CommandFrame

definition zero_HeaderFrame :: HeaderFrame where
  "zero_HeaderFrame =
     \<lparr>Sync = 0, FrameSize = 0, IDCode = 0, SOC = 0, FracSec = 0, CHK = 0, Data = []\<rparr>"

definition UnpackFrame ::
  "golib \<Rightarrow> byte list \<Rightarrow> ConfigFrame option \<Rightarrow> store
     \<Rightarrow> (frame option \<times> store) \<times> error option" where
  "UnpackFrame L data cfg h =
     (case GetFrameType data of
        Inl e \<Rightarrow> ((None, h), Some e)
      | Inr frameType \<Rightarrow>
          if frameType = FrameTypeData then
            (case cfg of
               None \<Rightarrow> ((None, h), Some ErrInvalidParameter)
             | Some c \<Rightarrow>
                 (let ((df, h1), err) = DataFrame_Unpack L (NewDataFrame cfg) data h
                  in ((Some (FrameData df), h1), err)))
          else if frameType = FrameTypeHeader then
            (let (hf, err) = HeaderFrame_Unpack zero_HeaderFrame data
             in ((Some (FrameHeader hf), h), err))
          else if frameType = FrameTypeCfg1 then
            (let ((cf, h1), err) = ConfigFrame_Unpack L NewConfig1Frame data h
             in ((Some (FrameConfig1 cf), h1), err))
          else if frameType = FrameTypeCfg2 then
            (let ((cf, h1), err) = ConfigFrame_Unpack L NewConfigFrame data h
             in ((Some (FrameConfig cf), h1), err))
          else if frameType = FrameTypeCfg3 then ((None, h), Some ErrNotImpl)
          else if frameType = FrameTypeCmd then
            (let (cmd, err) = CommandFrame_Unpack NewCommandFrame data
             in ((Some (FrameCommand cmd), h), err))
          else ((None, h), Some ErrInvalidFrame))"

section \<open>The concentrator's frame reader\<close>

text \<open>
  The connection is the list of byte chunks that the transport hands to the successive
  calls of \<^verbatim>\<open>Socket.Read\<close>; after the last chunk the peer has closed and \<^verbatim>\<open>Read\<close>
  returns \<open>EOF\<close>. A call with room for \<open>n\<close> bytes takes at most \<open>n\<close> bytes of the
  first chunk and leaves the rest of it for the next call.
\<close>

definition conn_read :: "byte list list \<Rightarrow> nat \<Rightarrow> error + (byte list \<times> byte list list)" where
  "conn_read cs n =
     (case cs of
        [] \<Rightarrow> Inl EOF
      | c # rest \<Rightarrow>
          if length c \<le> n then Inr (c, rest) else Inr (take n c, drop n c # rest))"

text \<open>
  The fields of \<^verbatim>\<open>PDC\<close> that \<^verbatim>\<open>ReadFrame\<close> uses, and with them the store of the station
  objects, which a call of \<^verbatim>\<open>ReadFrame\<close> may write. \<^verbatim>\<open>NewPDC\<close> makes a buffer of 65536
  bytes.
\<close>

record PDC =
  Socket :: "byte list list"
  PMUConfig2 :: "ConfigFrame option"
  Buffer :: "byte list"
  Stations :: store

definition NewPDC :: "byte list list \<Rightarrow> PDC" where
  "NewPDC conn = \<lparr>Socket = conn, PMUConfig2 = None, Buffer = replicate 65536 0, Stations = []\<rparr>"

text \<open>
  The loop \<^verbatim>\<open>for totalRead < target { n, err := p.Socket.Read(p.Buffer[totalRead:]); ... }\<close>:
  the buffer, the count and the connection when the loop ends, and the error if a read
  failed. A read into a full buffer returns no byte and no error, so the loop would spin for
  ever: this is the result \<open>None\<close>.
\<close>

function read_until ::
  "nat \<Rightarrow> byte list \<Rightarrow> nat \<Rightarrow> byte list list
     \<Rightarrow> (byte list \<times> nat \<times> byte list list \<times> error option) option" where
  "read_until target buf totalRead cs =
     (if totalRead < target then
        (if length buf \<le> totalRead then None
         else case conn_read cs (length buf - totalRead) of
            Inl e \<Rightarrow> Some (buf, totalRead, cs, Some e)
          | Inr (c, cs1) \<Rightarrow>
              read_until target
                (take totalRead buf @ c @ drop (totalRead + length c) buf)
                (totalRead + length c) cs1)
      else Some (buf, totalRead, cs, None))"
  by pat_completeness auto
termination
proof (relation "measure (\<lambda>(target, buf, totalRead, cs). (length buf - totalRead) + length cs)")
  show "wf (measure (\<lambda>(target, buf, totalRead, cs). (length buf - totalRead) + length cs))"
    by simp
next
  fix target :: nat and buf :: "byte list" and totalRead :: nat and cs :: "byte list list"
    and x2 :: "byte list \<times> byte list list" and c :: "byte list" and cs1 :: "byte list list"
  assume lt: "totalRead < target" and room: "\<not> length buf \<le> totalRead"
    and rd: "conn_read cs (length buf - totalRead) = Inr x2" and x2: "(c, cs1) = x2"
  from rd x2 obtain c0 rest where cs: "cs = c0 # rest"
    by (cases cs) (auto simp: conn_read_def)
  show "((target, take totalRead buf @ c @ drop (totalRead + length c) buf,
          totalRead + length c, cs1), (target, buf, totalRead, cs))
        \<in> measure (\<lambda>(target, buf, totalRead, cs). (length buf - totalRead) + length cs)"
  proof (cases "length c0 \<le> length buf - totalRead")
    case True
    with rd x2 cs have "c = c0" "cs1 = rest" by (auto simp: conn_read_def)
    with True room cs show ?thesis by auto
  next
    case False
    with rd x2 cs have "c = take (length buf - totalRead) c0"
      "cs1 = drop (length buf - totalRead) c0 # rest" by (auto simp: conn_read_def)
    with False room cs show ?thesis by auto
  qed
qed

text \<open>
  \<^verbatim>\<open>PDC.ReadFrame\<close>: what the call returns and the client after it. The result is
  \<open>None\<close> when the call does not return to its caller: when the read loop spins, and when
  the decoder panics, since no function of the source recovers from a panic.
\<close>

definition ReadFrame :: "golib \<Rightarrow> PDC \<Rightarrow> ((frame option \<times> error option) \<times> PDC) option" where
  "ReadFrame L p =
     (case read_until 4 (Buffer p) 0 (Socket p) of
        None \<Rightarrow> None
      | Some (buf1, total1, cs1, Some e) \<Rightarrow>
          Some ((None, Some e), p\<lparr>Socket := cs1, Buffer := buf1\<rparr>)
      | Some (buf1, total1, cs1, None) \<Rightarrow>
          (let frameSize = u16_at buf1 2 in
           (case read_until (unat frameSize) buf1 total1 cs1 of
              None \<Rightarrow> None
            | Some (buf2, total2, cs2, Some e) \<Rightarrow>
                Some ((None, Some e), p\<lparr>Socket := cs2, Buffer := buf2\<rparr>)
            | Some (buf2, total2, cs2, None) \<Rightarrow>
                (let ((fr, h1), err) =
                       UnpackFrame L (take (unat frameSize) buf2) (PMUConfig2 p) (Stations p)
                 in if err = Some Panic then None
                    else Some ((fr, err), p\<lparr>Socket := cs2, Buffer := buf2, Stations := h1\<rparr>)))))"

text \<open>The results of \<open>n\<close> successive calls of \<^verbatim>\<open>ReadFrame\<close> on one client.\<close>

fun ReadFrames :: "golib \<Rightarrow> nat \<Rightarrow> PDC \<Rightarrow> (frame option \<times> error option) list option" where
  "ReadFrames L 0 p = Some []"
| "ReadFrames L (Suc n) p =
     (case ReadFrame L p of
        None \<Rightarrow> None
      | Some (r, p1) \<Rightarrow>
          (case ReadFrames L n p1 of None \<Rightarrow> None | Some rs \<Rightarrow> Some (r # rs)))"

section \<open>What a data frame carries for a station\<close>

text \<open>
  The number of bytes a station takes in a data frame, and the values that the bytes at
  position \<open>i\<close> of a frame carry for a station with the channel counts, formats, units and
  nominal frequency of \<open>p\<close>, field by field: the status word, then the phasors, the
  frequency and its rate of change, the analog values and the digital words, each in the
  width of its format. \<open>holds_payload\<close> says that station \<open>q\<close> holds these values in its
  first channels, and \<open>payload_offset\<close> is the position of the \<open>k\<close>-th station of a directory
  in the frame, after the 14 bytes of the header. Two stations with the same layout have
  the same positions and conversions.
\<close>

definition data_station_bytes :: "PMUStation \<Rightarrow> nat" where
  "data_station_bytes pmu =
     2 + (if FormatPhasorType pmu then 8 else 4) * unat (Phnmr pmu)
       + (if FormatFreqType pmu then 8 else 4)
       + (if FormatAnalogType pmu then 4 else 2) * unat (Annmr pmu)
       + 2 * unat (Dgnmr pmu)"

definition phasor_at :: "golib \<Rightarrow> PMUStation \<Rightarrow> byte list \<Rightarrow> nat \<Rightarrow> nat \<Rightarrow> complex" where
  "phasor_at L p s i j =
     (if FormatPhasorType p then
        (if FormatCoord p
         then Rect (Float32frombits L (u32_at s i)) (Float32frombits L (u32_at s (i + 4)))
         else Complex (Float32frombits L (u32_at s i)) (Float32frombits L (u32_at s (i + 4))))
      else
        (if FormatCoord p
         then Rect (of_uint16 (u16_at s i) * real (unat (GetPhasorFactor p j)) / 100000)
                   (of_int16 (u16_at s (i + 2)) / 10000)
         else Complex (of_int16 (u16_at s i) * real (unat (GetPhasorFactor p j)) / 100000)
                      (of_int16 (u16_at s (i + 2)) * real (unat (GetPhasorFactor p j)) / 100000)))"

definition freq_at :: "golib \<Rightarrow> PMUStation \<Rightarrow> byte list \<Rightarrow> nat \<Rightarrow> real" where
  "freq_at L p s i =
     (if FormatFreqType p then Float32frombits L (u32_at s i)
      else GetNominalFrequency p + of_int16 (u16_at s i) / 1000)"

definition dfreq_at :: "golib \<Rightarrow> PMUStation \<Rightarrow> byte list \<Rightarrow> nat \<Rightarrow> real" where
  "dfreq_at L p s i =
     (if FormatFreqType p then Float32frombits L (u32_at s (i + 4))
      else of_int16 (u16_at s (i + 2)) / 100)"

definition analog_at :: "golib \<Rightarrow> PMUStation \<Rightarrow> byte list \<Rightarrow> nat \<Rightarrow> real" where
  "analog_at L p s i =
     (if FormatAnalogType p then Float32frombits L (u32_at s i) else of_int16 (u16_at s i))"

definition digital_at :: "byte list \<Rightarrow> nat \<Rightarrow> bool list" where
  "digital_at s i = map (\<lambda>k. bit (u16_at s i) k) [0 ..< 16]"

definition holds_payload :: "golib \<Rightarrow> PMUStation \<Rightarrow> byte list \<Rightarrow> nat \<Rightarrow> PMUStation \<Rightarrow> bool" where
  "holds_payload L p s i q =
     (let np = unat (Phnmr p); na = unat (Annmr p); nd = unat (Dgnmr p);
          wp = (if FormatPhasorType p then 8 else 4);
          wa = (if FormatAnalogType p then 4 else 2);
          i1 = i + 2;
          i2 = i1 + wp * np;
          i3 = i2 + (if FormatFreqType p then 8 else 4);
          i4 = i3 + wa * na
      in Stat q = u16_at s i
       \<and> take np (PhasorValues q) = map (\<lambda>j. phasor_at L p s (i1 + wp * j) j) [0 ..< np]
       \<and> Freq q = freq_at L p s i2
       \<and> DFreq q = dfreq_at L p s i2
       \<and> take na (AnalogValues q) = map (\<lambda>j. analog_at L p s (i3 + wa * j)) [0 ..< na]
       \<and> map (take 16) (take nd (DigitalValues q)) = map (\<lambda>j. digital_at s (i4 + 2 * j)) [0 ..< nd])"

definition payload_offset :: "store \<Rightarrow> station_ref list \<Rightarrow> nat \<Rightarrow> nat" where
  "payload_offset h refs k = 14 + sum_list (map (\<lambda>r. data_station_bytes (h ! r)) (take k refs))"

definition same_layout :: "PMUStation \<Rightarrow> PMUStation \<Rightarrow> bool" where
  "same_layout p q =
     (Format p = Format q \<and> Phnmr p = Phnmr q \<and> Annmr p = Annmr q \<and> Dgnmr p = Dgnmr q
      \<and> Phunit p = Phunit q \<and> Fnom p = Fnom q)"


section \<open>An instance of the library parameters\<close>

text \<open>
  The closed examples below need one instance of the parameters. This one leaves names
  as they are and maps every float to the zero pattern; the examples use integer formats
  and stations without names, so that no result depends on it.
\<close>

definition lib0 :: golib where
  "lib0 = \<lparr>TrimSpace = (\<lambda>s. s), Float32bits = (\<lambda>x. 0), Float32frombits = (\<lambda>w. 0)\<rparr>"

text \<open>
  A station with one phasor channel of scale factor 100000, one analog channel and one
  digital word, in the integer rectangular formats, all values zero; a directory that
  points to it, the station being object 0 of the store; and a data frame for it whose
  checksum field is wrong. The frame carries the status word \<open>0xBEEF\<close>, the phasor
  \<open>(3, 4)\<close>, the frequency offset 1000 and the rate of change 100, the analog value 5 and
  the digital word \<open>0x8001\<close>.
\<close>

definition station0 :: PMUStation where
  "station0 =
     AddDigital (AddAnalog (AddPhasor (NewPMUStation [] 1 False False False False)
       [] 100000 0) [] 1 0) [] 0 0"

definition directory0 :: ConfigFrame where
  "directory0 = AddPMUStation NewConfigFrame 0"

definition corrupt_data_frame :: "byte list" where
  "corrupt_data_frame =
     [0xAA, 0x01, 0x00, 0x1E, 0x00, 0x07, 0, 0, 0, 0, 0, 0, 0, 0,
      0xBE, 0xEF, 0x00, 0x03, 0x00, 0x04, 0x03, 0xE8, 0x00, 0x64, 0x00, 0x05, 0x80, 0x01,
      0, 0]"

text \<open>
  A directory that holds the pointer to the same station twice, and a data frame for it
  whose checksum field is wrong: after the payload above it carries, for the second
  pointer, the status word \<open>0x1234\<close>, the phasor \<open>(1, 2)\<close>, no frequency offset and no
  rate of change, the analog value 7 and the digital word \<open>0x0002\<close>.
\<close>

definition directory00 :: ConfigFrame where
  "directory00 = AddPMUStation (AddPMUStation NewConfigFrame 0) 0"

definition corrupt_twice_frame :: "byte list" where
  "corrupt_twice_frame =
     [0xAA, 0x01, 0x00, 0x2C, 0x00, 0x07, 0, 0, 0, 0, 0, 0, 0, 0,
      0xBE, 0xEF, 0x00, 0x03, 0x00, 0x04, 0x03, 0xE8, 0x00, 0x64, 0x00, 0x05, 0x80, 0x01,
      0x12, 0x34, 0x00, 0x01, 0x00, 0x02, 0x00, 0x00, 0x00, 0x00, 0x00, 0x07, 0x00, 0x02,
      0, 0]"

text \<open>The START command of the unit with id 7 at time zero, as \<^verbatim>\<open>Pack\<close> encodes it.\<close>

definition start_frame :: "byte list" where
  "start_frame = [0xAA, 0x41, 0x00, 0x12, 0x00, 0x07, 0, 0, 0, 0, 0, 0, 0, 0, 0x00, 0x02, 0x64, 0xFB]"

definition start_cmd :: CommandFrame where
  "start_cmd = \<lparr>Sync = 0xAA41, FrameSize = 18, IDCode = 7, SOC = 0, FracSec = 0,
                 CHK = 0x64FB, CMD = 2, ExtraFrame = []\<rparr>"

text \<open>
  Packing a data frame for a directory and decoding the bytes against the same directory:
  the directory's stations as the decoder leaves them in the store, \<open>None\<close> when either
  call fails.
\<close>

definition Data_roundtrip :: "golib \<Rightarrow> ConfigFrame \<Rightarrow> store \<Rightarrow> PMUStation list option" where
  "Data_roundtrip L cfg h =
     (case DataFrame_Pack L (NewDataFrame (Some cfg)) h of
        Inl e \<Rightarrow> None
      | Inr bs \<Rightarrow>
          (case DataFrame_Unpack L (NewDataFrame (Some cfg)) bs h of
             ((d, h1), Some e) \<Rightarrow> None
           | ((d, h1), None) \<Rightarrow>
               (case stations_of h1 (PMUStationList cfg) of
                  Inl e \<Rightarrow> None | Inr pmus \<Rightarrow> Some pmus)))"

text \<open>
  A station with one phasor channel in the integer rectangular format, scale factor 915527,
  phasor value \<open>3 + 4i\<close> and the frequency at its nominal value; its directory, the
  station being object 0 of the store; and the data frame \<^verbatim>\<open>Pack\<close> encodes for it.
\<close>

definition station7 :: PMUStation where
  "station7 = (AddPhasor (NewPMUStation [] 1 False False False False) [] 915527 0)
                \<lparr>PhasorValues := [Complex 3 4], Freq := 60\<rparr>"

definition directory7 :: ConfigFrame where
  "directory7 = AddPMUStation NewConfigFrame 0"

definition frame7 :: "byte list" where
  "frame7 = [0xAA, 0x01, 0x00, 0x1A, 0, 0, 0, 0, 0, 0, 0, 0, 0, 0,
             0, 0, 0, 0, 0, 0, 0, 0, 0, 0, 0x14, 0xB4]"

text \<open>
  The header frame of the unit with id 7 at time zero and with no text, as \<^verbatim>\<open>Pack\<close>
  encodes it and as \<^verbatim>\<open>Unpack\<close> decodes it.
\<close>

definition header7_frame :: "byte list" where
  "header7_frame = [0xAA, 0x11, 0x00, 0x10, 0x00, 0x07, 0, 0, 0, 0, 0, 0, 0, 0, 0xC9, 0x33]"

definition header7 :: HeaderFrame where
  "header7 = \<lparr>Sync = 0xAA11, FrameSize = 16, IDCode = 7, SOC = 0, FracSec = 0,
               CHK = 0xC933, Data = []\<rparr>"

section \<open>Corrupted frames\<close>

text \<open>
  \<open>flip_bit\<close> flips bit \<open>k\<close> of byte \<open>pos\<close> of an encoded frame. The errors of a decoder
  that come from the length of its input or from a count or size the input declares are
  the \<open>input_error\<close>s.
\<close>

definition flip_bit :: "byte list \<Rightarrow> nat \<Rightarrow> nat \<Rightarrow> byte list" where
  "flip_bit data pos k = data[pos := data ! pos XOR push_bit k 1]"

definition input_error :: "error \<Rightarrow> bool" where
  "input_error e = (e = EOF \<or> e = ErrUnexpectedEOF \<or> e = ErrInvalidSize)"

text \<open>
  A station can be encoded and decoded without a panic when its value slices are as long
  as its channel counts say. Decoding does not change the counts, the format or the lengths
  of the slices: the station before and after has the \<open>same_shape\<close>.
\<close>

definition station_indexable :: "PMUStation \<Rightarrow> bool" where
  "station_indexable pmu =
     (unat (Phnmr pmu) \<le> length (PhasorValues pmu)
      \<and> unat (Annmr pmu) \<le> length (AnalogValues pmu)
      \<and> list_all (\<lambda>j. j < length (DigitalValues pmu) \<and> 16 \<le> length (DigitalValues pmu ! j))
            [0 ..< unat (Dgnmr pmu)])"

definition same_shape :: "PMUStation \<Rightarrow> PMUStation \<Rightarrow> bool" where
  "same_shape p q =
     (Format p = Format q \<and> Phnmr p = Phnmr q \<and> Annmr p = Annmr q \<and> Dgnmr p = Dgnmr q
      \<and> length (PhasorValues p) = length (PhasorValues q)
      \<and> length (AnalogValues p) = length (AnalogValues q)
      \<and> map length (DigitalValues p) = map length (DigitalValues q))"

text \<open>
  The header frame of unit 7 at time zero whose text is the two bytes \<open>C9 33\<close>, and the
  configuration frame of a directory without stations, as \<^verbatim>\<open>Pack\<close> encodes them.
\<close>

definition header7_text_frame :: "byte list" where
  "header7_text_frame = [0xAA, 0x11, 0x00, 0x12, 0x00, 0x07, 0, 0, 0, 0, 0, 0, 0, 0,
                   0xC9, 0x33, 0x8A, 0xC6]"

definition empty_config_frame :: "byte list" where
  "empty_config_frame = [0xAA, 0x31, 0x00, 0x18, 0, 0, 0, 0, 0, 0, 0, 0, 0, 0,
                         0, 0, 0, 0, 0, 0, 0, 0, 0x3C, 0x7C]"

section \<open>Basic facts\<close>

lemma bind_err_simps [simp]:
  "bind_err (Inl e) k = Inl e" "bind_err (Inr x) k = k x"
  by (simp_all add: bind_err_def)

lemma or_return_simps [simp]:
  "or_return (Inl e) h k = (h, Some e)" "or_return (Inr x) h k = k x"
  by (simp_all add: or_return_def)

lemma and_then_simps [simp]:
  "and_then (p, Inl e) k = (p, Inl e)" "and_then (p, Inr i) k = k p i"
  by (simp_all add: and_then_def)

lemma read_u16_ok: "i + 2 \<le> length s \<Longrightarrow> read_u16 s i = Inr (u16_at s i, i + 2)"
  by (simp add: read_u16_def)

lemma read_u32_ok: "i + 4 \<le> length s \<Longrightarrow> read_u32 s i = Inr (u32_at s i, i + 4)"
  by (simp add: read_u32_def)

text \<open>The reads of the common header, at their fixed offsets.\<close>

lemma read_fixed:
  "2 \<le> length s \<Longrightarrow> read_u16 s 0 = Inr (u16_at s 0, 2)"
  "4 \<le> length s \<Longrightarrow> read_u16 s 2 = Inr (u16_at s 2, 4)"
  "6 \<le> length s \<Longrightarrow> read_u16 s 4 = Inr (u16_at s 4, 6)"
  "10 \<le> length s \<Longrightarrow> read_u32 s 6 = Inr (u32_at s 6, 10)"
  "14 \<le> length s \<Longrightarrow> read_u32 s 10 = Inr (u32_at s 10, 14)"
  "16 \<le> length s \<Longrightarrow> read_u16 s 14 = Inr (u16_at s 14, 16)"
  "18 \<le> length s \<Longrightarrow> read_u32 s 14 = Inr (u32_at s 14, 18)"
  "20 \<le> length s \<Longrightarrow> read_u16 s 18 = Inr (u16_at s 18, 20)"
  by (auto simp: read_u16_def read_u32_def)

text \<open>Facts for evaluating the checksum and the byte order on concrete frames.\<close>

lemma funpow8: "(f ^^ 8) x = f (f (f (f (f (f (f (f x)))))))"
  by (simp add: eval_nat_numeral)

lemma crc_byte_unfold:
  "crc_byte c b =
     crc_bit (crc_bit (crc_bit (crc_bit (crc_bit (crc_bit (crc_bit (crc_bit
       (c XOR push_bit 8 (ucast b)))))))))"
  by (simp add: crc_byte_def funpow8)

lemmas crc_eval = CalcCRC_def crc_byte_unfold crc_bit_def

lemmas bytes_eval = be16_def be32_def u16_at_def u32_at_def write_header_def
  read_u16_def read_u32_def read_bytes_def

section \<open>Size errors\<close>

lemma HeaderFrame_Unpack_size:
  "length data < 16 \<or> u16_at data 2 < 16 \<Longrightarrow> snd (HeaderFrame_Unpack h data) = Some ErrInvalidSize"
  by (cases "length data < 16") (simp_all add: HeaderFrame_Unpack_def read_fixed)

lemma CommandFrame_Unpack_size:
  "length data < 18 \<or> u16_at data 2 < 18 \<Longrightarrow> snd (CommandFrame_Unpack c data) = Some ErrInvalidSize"
  by (cases "length data < 18") (simp_all add: CommandFrame_Unpack_def read_fixed)

lemma ConfigFrame_Unpack_size:
  "length data < 24 \<or> u16_at data 2 < 24 \<Longrightarrow> snd (ConfigFrame_Unpack L c data h) = Some ErrInvalidSize"
  by (cases "length data < 24") (simp_all add: ConfigFrame_Unpack_def read_fixed)

lemma DataFrame_Unpack_size:
  "AssociatedConfig d = Some cfg \<Longrightarrow> length data < 16 \<or> u16_at data 2 < 16
    \<Longrightarrow> snd (DataFrame_Unpack L d data h) = Some ErrInvalidSize"
  by (cases "length data < 16") (simp_all add: DataFrame_Unpack_def read_fixed)

lemma DataFrame_Unpack_nil:
  "AssociatedConfig d = None \<Longrightarrow> DataFrame_Unpack L d data h = ((d, h), Some ErrInvalidParameter)"
  by (simp add: DataFrame_Unpack_def)

section \<open>Dispatch\<close>

lemma ucast_byte_eq_SyncAA: "(ucast (b :: byte) = SyncAA) = (b = 0xAA)"
proof -
  have "uint (ucast b :: uint16) = uint b"
    by (rule uint_up_ucast) (simp add: is_up)
  then show ?thesis
    by (simp add: word_uint_eq_iff SyncAA_def)
qed

lemma unat_byte_eq_iff:
  "(unat (t :: byte) = 0) = (t = 0)" "(unat t = Suc 0) = (t = 1)" "(unat t = 2) = (t = 2)"
  "(unat t = 3) = (t = 3)" "(unat t = 4) = (t = 4)" "(unat t = 5) = (t = 5)"
  by (simp_all add: word_unat_eq_iff)

lemma UnpackFrame_short:
  "length data < 2 \<Longrightarrow> UnpackFrame L data cfg h = ((None, h), Some ErrInvalidSize)"
  by (simp add: UnpackFrame_def GetFrameType_def)

lemma UnpackFrame_nil_data:
  "GetFrameType data = Inr FrameTypeData
     \<Longrightarrow> UnpackFrame L data None h = ((None, h), Some ErrInvalidParameter)"
  by (simp add: UnpackFrame_def)

lemma UnpackFrame_by_type:
  assumes "2 \<le> length data"
  shows "UnpackFrame L data cfg h =
    (if data ! 0 \<noteq> 0xAA then ((None, h), Some ErrInvalidFrame)
     else let t = drop_bit 4 (data ! 1) AND 0x07 in
       if t = 0 then
         (case cfg of
            None \<Rightarrow> ((None, h), Some ErrInvalidParameter)
          | Some c \<Rightarrow>
              ((Some (FrameData (fst (fst (DataFrame_Unpack L (NewDataFrame cfg) data h)))),
                snd (fst (DataFrame_Unpack L (NewDataFrame cfg) data h))),
               snd (DataFrame_Unpack L (NewDataFrame cfg) data h)))
       else if t = 1 then
         ((Some (FrameHeader (fst (HeaderFrame_Unpack zero_HeaderFrame data))), h),
          snd (HeaderFrame_Unpack zero_HeaderFrame data))
       else if t = 2 then
         ((Some (FrameConfig1 (fst (fst (ConfigFrame_Unpack L NewConfig1Frame data h)))),
           snd (fst (ConfigFrame_Unpack L NewConfig1Frame data h))),
          snd (ConfigFrame_Unpack L NewConfig1Frame data h))
       else if t = 3 then
         ((Some (FrameConfig (fst (fst (ConfigFrame_Unpack L NewConfigFrame data h)))),
           snd (fst (ConfigFrame_Unpack L NewConfigFrame data h))),
          snd (ConfigFrame_Unpack L NewConfigFrame data h))
       else if t = 4 then
         ((Some (FrameCommand (fst (CommandFrame_Unpack NewCommandFrame data))), h),
          snd (CommandFrame_Unpack NewCommandFrame data))
       else if t = 5 then ((None, h), Some ErrNotImpl)
       else ((None, h), Some ErrInvalidFrame))"
proof -
  have len: "\<not> length data < 2" using assms by simp
  show ?thesis
    unfolding UnpackFrame_def GetFrameType_def FrameTypeData_def FrameTypeHeader_def
      FrameTypeCfg1_def FrameTypeCfg2_def FrameTypeCfg3_def FrameTypeCmd_def
    by (simp add: len ucast_byte_eq_SyncAA unat_byte_eq_iff Let_def split: prod.split option.split)
qed

text \<open>
  Claim C6. For an input of at least two bytes, \<^verbatim>\<open>UnpackFrame\<close> returns the invalid-frame
  error when the first byte is not \<open>0xAA\<close>; otherwise the three type bits of the second
  byte select the decoder: 0 the data decoder (the parameter error when no directory is
  given), 1 the header decoder, 2 and 3 the configuration decoder on a fresh version-1 or
  version-2 frame, 4 the command decoder; 5 returns the not-implemented error and no frame,
  whatever the rest of the input holds, and 6 and 7 return the invalid-frame error. Only
  the data and the configuration decoders touch the store of station objects.
\<close>

theorem UnpackFrame_dispatch:
  assumes "2 \<le> length data"
  shows "UnpackFrame L data cfg h =
    (if data ! 0 \<noteq> 0xAA then ((None, h), Some ErrInvalidFrame)
     else let t = drop_bit 4 (data ! 1) AND 0x07 in
       if t = 0 then
         (case cfg of
            None \<Rightarrow> ((None, h), Some ErrInvalidParameter)
          | Some c \<Rightarrow>
              ((Some (FrameData (fst (fst (DataFrame_Unpack L (NewDataFrame cfg) data h)))),
                snd (fst (DataFrame_Unpack L (NewDataFrame cfg) data h))),
               snd (DataFrame_Unpack L (NewDataFrame cfg) data h)))
       else if t = 1 then
         ((Some (FrameHeader (fst (HeaderFrame_Unpack zero_HeaderFrame data))), h),
          snd (HeaderFrame_Unpack zero_HeaderFrame data))
       else if t = 2 then
         ((Some (FrameConfig1 (fst (fst (ConfigFrame_Unpack L NewConfig1Frame data h)))),
           snd (fst (ConfigFrame_Unpack L NewConfig1Frame data h))),
          snd (ConfigFrame_Unpack L NewConfig1Frame data h))
       else if t = 3 then
         ((Some (FrameConfig (fst (fst (ConfigFrame_Unpack L NewConfigFrame data h)))),
           snd (fst (ConfigFrame_Unpack L NewConfigFrame data h))),
          snd (ConfigFrame_Unpack L NewConfigFrame data h))
       else if t = 4 then
         ((Some (FrameCommand (fst (CommandFrame_Unpack NewCommandFrame data))), h),
          snd (CommandFrame_Unpack NewCommandFrame data))
       else if t = 5 then ((None, h), Some ErrNotImpl)
       else ((None, h), Some ErrInvalidFrame))"
  using assms by (rule UnpackFrame_by_type)

theorem UnpackFrame_dispatch_witness:
  "2 \<le> length [0xAA, 0x51 :: byte]
   \<and> UnpackFrame lib0 [0xAA, 0x51] None [] = ((None, []), Some ErrNotImpl)"
  using UnpackFrame_dispatch [of "[0xAA, 0x51]" lib0 None "[]"] by simp

text \<open>
  Claim C4. When the frame type that \<^verbatim>\<open>GetFrameType\<close> extracts from a buffer is Data,
  \<^verbatim>\<open>UnpackFrame\<close> with a \<^verbatim>\<open>nil\<close> directory returns the parameter error and no frame;
  and \<^verbatim>\<open>DataFrame.Unpack\<close> on a frame whose \<open>AssociatedConfig\<close> is \<^verbatim>\<open>nil\<close> returns the
  parameter error and leaves the frame as it was, whatever the buffer holds. Neither call
  writes to a station.
\<close>

theorem Data_without_directory:
  "(GetFrameType data = Inr FrameTypeData \<longrightarrow>
      UnpackFrame L data None h = ((None, h), Some ErrInvalidParameter))
   \<and> (AssociatedConfig d = None \<longrightarrow>
      DataFrame_Unpack L d data h = ((d, h), Some ErrInvalidParameter))"
  by (simp add: UnpackFrame_nil_data DataFrame_Unpack_nil)

theorem Data_without_directory_witness:
  "GetFrameType [0xAA, 0x01] = Inr FrameTypeData
   \<and> UnpackFrame lib0 [0xAA, 0x01] None [] = ((None, []), Some ErrInvalidParameter)
   \<and> AssociatedConfig (NewDataFrame None) = None
   \<and> DataFrame_Unpack lib0 (NewDataFrame None) [0xAA, 0x01] []
        = ((NewDataFrame None, []), Some ErrInvalidParameter)"
proof -
  have t: "GetFrameType [0xAA, 0x01] = Inr FrameTypeData"
    by (simp add: GetFrameType_def FrameTypeData_def SyncAA_def)
  have n: "AssociatedConfig (NewDataFrame None) = None"
    by (simp add: NewDataFrame_def)
  from Data_without_directory [of "[0xAA, 0x01]" lib0 "[]" "NewDataFrame None"] t n
  show ?thesis by simp
qed

section \<open>Undersized input\<close>

lemma byte_and7_cases:
  fixes t :: byte
  assumes "t = w AND 0x07"
  shows "t = 0 \<or> t = 1 \<or> t = 2 \<or> t = 3 \<or> t = 4 \<or> t = 5 \<or> t = 6 \<or> t = 7"
proof -
  have "t \<le> 0x07" unfolding assms by (rule word_and_le1)
  then have "unat t < 8" by (simp add: word_le_nat_alt)
  then have "unat t \<in> {0, 1, 2, 3, 4, 5, 6, 7}" by auto
  then show ?thesis by (auto simp: word_unat_eq_iff)
qed

lemma UnpackFrame_three_bytes:
  assumes "length data = 3" and "data ! 0 = 0xAA"
  shows "snd (UnpackFrame L data cfg st) =
     (let t = drop_bit 4 (data ! 1) AND 0x07 in
      if t = 5 then Some ErrNotImpl
      else if t = 6 \<or> t = 7 then Some ErrInvalidFrame
      else if t = 0 \<and> cfg = None then Some ErrInvalidParameter
      else Some ErrInvalidSize)"
proof -
  have len: "2 \<le> length data" "length data < 16" "length data < 18" "length data < 24"
    using assms by simp_all
  have sz: "snd (HeaderFrame_Unpack zero_HeaderFrame data) = Some ErrInvalidSize"
    "snd (ConfigFrame_Unpack L NewConfig1Frame data st) = Some ErrInvalidSize"
    "snd (ConfigFrame_Unpack L NewConfigFrame data st) = Some ErrInvalidSize"
    "snd (CommandFrame_Unpack NewCommandFrame data) = Some ErrInvalidSize"
    using len
    by (simp_all add: HeaderFrame_Unpack_size ConfigFrame_Unpack_size CommandFrame_Unpack_size)
  have szd: "snd (DataFrame_Unpack L (NewDataFrame (Some x)) data st) = Some ErrInvalidSize" for x
    by (rule DataFrame_Unpack_size [where cfg = x]) (simp_all add: NewDataFrame_def len)
  from byte_and7_cases [OF refl, of "drop_bit 4 (data ! 1)"]
  show ?thesis
    by (auto simp: UnpackFrame_by_type [OF len(1)] assms(2) Let_def sz szd split: option.split)
qed

text \<open>
  Claim C8, as amended. For a buffer shorter than the kind's minimum (Header 16, Config 24,
  Command 18, Data 16 bytes), and for a buffer whose declared size is below that minimum,
  the header, configuration and command decoders return the size error, and so does the
  data decoder when the frame has a directory; without a directory the data decoder returns
  the parameter error. A buffer of three bytes that starts with \<open>0xAA\<close>, given to
  \<^verbatim>\<open>UnpackFrame\<close>, yields the not-implemented error for type 5, the invalid-frame error for
  types 6 and 7, the parameter error for type 0 without a directory, and the size error
  otherwise. No case panics.
\<close>

theorem undersized_input_errors:
  "(length data < 16 \<or> u16_at data 2 < 16 \<longrightarrow>
      snd (HeaderFrame_Unpack h data) = Some ErrInvalidSize)
   \<and> (length data < 24 \<or> u16_at data 2 < 24 \<longrightarrow>
      snd (ConfigFrame_Unpack L c data st) = Some ErrInvalidSize)
   \<and> (length data < 18 \<or> u16_at data 2 < 18 \<longrightarrow>
      snd (CommandFrame_Unpack cmd data) = Some ErrInvalidSize)
   \<and> (AssociatedConfig d \<noteq> None \<and> (length data < 16 \<or> u16_at data 2 < 16) \<longrightarrow>
      snd (DataFrame_Unpack L d data st) = Some ErrInvalidSize)
   \<and> (AssociatedConfig d = None \<longrightarrow>
      snd (DataFrame_Unpack L d data st) = Some ErrInvalidParameter)
   \<and> (length data = 3 \<and> data ! 0 = 0xAA \<longrightarrow>
      snd (UnpackFrame L data cfg st) =
        (let t = drop_bit 4 (data ! 1) AND 0x07 in
         if t = 5 then Some ErrNotImpl
         else if t = 6 \<or> t = 7 then Some ErrInvalidFrame
         else if t = 0 \<and> cfg = None then Some ErrInvalidParameter
         else Some ErrInvalidSize))"
proof -
  have "AssociatedConfig d \<noteq> None \<Longrightarrow> length data < 16 \<or> u16_at data 2 < 16 \<Longrightarrow>
      snd (DataFrame_Unpack L d data st) = Some ErrInvalidSize"
    using DataFrame_Unpack_size [of d "the (AssociatedConfig d)" data L st] by auto
  then show ?thesis
    using HeaderFrame_Unpack_size [of data h] ConfigFrame_Unpack_size [of data L c st]
      CommandFrame_Unpack_size [of data cmd] DataFrame_Unpack_nil [of d L data st]
      UnpackFrame_three_bytes [of data L cfg st]
    by simp
qed

theorem undersized_input_errors_witness:
  "snd (HeaderFrame_Unpack zero_HeaderFrame [0xAA, 0x41, 0x00]) = Some ErrInvalidSize
   \<and> snd (ConfigFrame_Unpack lib0 NewConfigFrame [0xAA, 0x41, 0x00] []) = Some ErrInvalidSize
   \<and> snd (CommandFrame_Unpack NewCommandFrame [0xAA, 0x41, 0x00]) = Some ErrInvalidSize
   \<and> snd (DataFrame_Unpack lib0 (NewDataFrame (Some NewConfigFrame)) [0xAA, 0x41, 0x00] [])
        = Some ErrInvalidSize
   \<and> snd (UnpackFrame lib0 [0xAA, 0x41, 0x00] None []) = Some ErrInvalidSize"
proof -
  have t: "drop_bit 4 (0x41 :: byte) AND 0x07 = 4" by simp
  have a: "AssociatedConfig (NewDataFrame (Some NewConfigFrame)) \<noteq> None"
    by (simp add: NewDataFrame_def)
  from undersized_input_errors [of "[0xAA, 0x41, 0x00]" zero_HeaderFrame lib0 NewConfigFrame
      "[]" NewCommandFrame "NewDataFrame (Some NewConfigFrame)" None] a
  show ?thesis by (simp add: t)
qed

text \<open>
  The claim as stated fails: on a buffer of three bytes the data decoder without a
  directory returns the parameter error, and \<^verbatim>\<open>UnpackFrame\<close> returns the not-implemented
  error when the type bits are 5. Neither is a size error.
\<close>

theorem undersized_counterexample:
  "length [0xAA, 0x01, 0x00 :: byte] < 16
   \<and> snd (DataFrame_Unpack lib0 (NewDataFrame None) [0xAA, 0x01, 0x00] [])
        = Some ErrInvalidParameter
   \<and> snd (UnpackFrame lib0 [0xAA, 0x51, 0x00] None []) = Some ErrNotImpl"
proof -
  have "snd (UnpackFrame lib0 [0xAA, 0x51, 0x00] None []) = Some ErrNotImpl"
    by (simp add: UnpackFrame_by_type)
  then show ?thesis
    by (simp add: DataFrame_Unpack_nil NewDataFrame_def)
qed

section \<open>The declared size of a command frame\<close>

text \<open>
  Claim C2 at a command frame with a one-byte extension: \<^verbatim>\<open>NewCommandFrame\<close> sets the
  size to 18 and \<^verbatim>\<open>CommandFrame.Pack\<close> writes it unchanged, so the 19 bytes it returns
  declare 18, and \<^verbatim>\<open>CommandFrame.Unpack\<close> rejects them with the checksum error.
\<close>

theorem CommandFrame_Pack_extension_size:
  "CommandFrame_Pack (NewCommandFrame\<lparr>ExtraFrame := [0x01]\<rparr>)
     = Inr [0xAA, 0x41, 0x00, 0x12, 0, 0, 0, 0, 0, 0, 0, 0, 0, 0, 0, 0, 0x01, 0xA9, 0x2A]
   \<and> length [0xAA, 0x41, 0x00, 0x12, 0, 0, 0, 0, 0, 0, 0, 0, 0, 0, 0, 0, 0x01, 0xA9, 0x2A :: byte] = 19
   \<and> u16_at [0xAA, 0x41, 0x00, 0x12, 0, 0, 0, 0, 0, 0, 0, 0, 0, 0, 0, 0, 0x01, 0xA9, 0x2A] 2 = 18
   \<and> snd (CommandFrame_Unpack NewCommandFrame
        [0xAA, 0x41, 0x00, 0x12, 0, 0, 0, 0, 0, 0, 0, 0, 0, 0, 0, 0, 0x01, 0xA9, 0x2A])
       = Some ErrCRCFailed"
proof -
  have p: "CommandFrame_Pack (NewCommandFrame\<lparr>ExtraFrame := [0x01]\<rparr>)
     = Inr [0xAA, 0x41, 0x00, 0x12, 0, 0, 0, 0, 0, 0, 0, 0, 0, 0, 0, 0, 0x01, 0xA9, 0x2A]"
    by (simp add: CommandFrame_Pack_def NewCommandFrame_def SyncAA_def SyncCmd_def
        crc_eval bytes_eval)
  have u: "snd (CommandFrame_Unpack NewCommandFrame
        [0xAA, 0x41, 0x00, 0x12, 0, 0, 0, 0, 0, 0, 0, 0, 0, 0, 0, 0, 0x01, 0xA9, 0x2A])
       = Some ErrCRCFailed"
    by (simp add: CommandFrame_Unpack_def NewCommandFrame_def SyncAA_def SyncCmd_def
        crc_eval bytes_eval)
  show ?thesis using p u by (simp add: u16_at_def)
qed

section \<open>Decoding a data frame whose payload parses\<close>

lemma unat_size_minus_2:
  fixes fs :: uint16
  assumes "16 \<le> fs"
  shows "unat (fs - 2) = unat fs - 2"
proof -
  have "2 \<le> fs" using assms by (simp add: word_le_nat_alt)
  then show ?thesis by (simp add: unat_sub)
qed

lemma unat_size_ge:
  fixes fs :: uint16
  assumes "16 \<le> fs"
  shows "16 \<le> unat fs"
  using assms by (simp add: word_le_nat_alt)

lemma read_chk:
  assumes "16 \<le> n" and "n \<le> length data"
  shows "read_u16 data (n - 2) = Inr (u16_at data (n - 2), n)"
proof -
  have "n - 2 + 2 = n" using assms(1) by arith
  then show ?thesis
    using read_u16_ok [of "n - 2" data] assms(2) by simp
qed

lemma DataFrame_Unpack_parsed:
  assumes cfg: "AssociatedConfig d = Some cfg"
    and len: "16 \<le> length data" and fs: "16 \<le> u16_at data 2"
    and parse: "unpack_data_stations L data (PMUStationList cfg) 14 h = (h1, Inr i)"
    and chk: "unat (u16_at data 2) \<le> length data"
  shows "DataFrame_Unpack L d data h =
     (let d7 = d\<lparr>Sync := u16_at data 0, FrameSize := u16_at data 2, IDCode := u16_at data 4,
                   SOC := u32_at data 6, FracSec := u32_at data 10,
                   CHK := u16_at data (unat (u16_at data 2) - 2)\<rparr>
      in if CalcCRC (take (unat (u16_at data 2) - 2) data) \<noteq> u16_at data (unat (u16_at data 2) - 2)
         then ((d7, h1), Some ErrCRCFailed) else ((d7, h1), None))"
proof -
  have l: "\<not> length data < 16" "2 \<le> length data" "4 \<le> length data" "6 \<le> length data"
    "10 \<le> length data" "14 \<le> length data"
    using len by simp_all
  have f: "\<not> u16_at data 2 < 16" using fs by simp
  show ?thesis
    by (simp add: DataFrame_Unpack_def cfg l f read_fixed parse read_chk [OF unat_size_ge [OF fs] chk]
        unat_size_minus_2 [OF fs] Let_def)
qed

section \<open>Decoding a data frame is not atomic\<close>

lemma same_layout_refl [simp]: "same_layout p p"
  by (simp add: same_layout_def)

lemma same_layout_trans: "same_layout p q \<Longrightarrow> same_layout q r \<Longrightarrow> same_layout p r"
  by (simp add: same_layout_def)

lemma same_layout_formats:
  assumes "same_layout p q"
  shows "FormatPhasorType p = FormatPhasorType q" "FormatCoord p = FormatCoord q"
    "FormatFreqType p = FormatFreqType q" "FormatAnalogType p = FormatAnalogType q"
    "GetPhasorFactor p = GetPhasorFactor q" "GetNominalFrequency p = GetNominalFrequency q"
  using assms
  by (simp_all add: same_layout_def FormatPhasorType_def FormatCoord_def FormatFreqType_def
      FormatAnalogType_def GetPhasorFactor_def GetNominalFrequency_def fun_eq_iff)

lemma same_layout_values:
  assumes "same_layout p q"
  shows "phasor_at L p = phasor_at L q" "freq_at L p = freq_at L q"
    "dfreq_at L p = dfreq_at L q" "analog_at L p = analog_at L q"
    "data_station_bytes p = data_station_bytes q"
  using same_layout_formats [OF assms] assms
  by (simp_all add: fun_eq_iff phasor_at_def freq_at_def dfreq_at_def analog_at_def
      data_station_bytes_def same_layout_def)

lemma same_layout_payload:
  assumes "same_layout p q"
  shows "holds_payload L p = holds_payload L q"
proof -
  have c: "Phnmr p = Phnmr q" "Annmr p = Annmr q" "Dgnmr p = Dgnmr q"
    using assms by (simp_all add: same_layout_def)
  show ?thesis
    unfolding holds_payload_def fun_eq_iff same_layout_values [OF assms]
      same_layout_formats(1-4) [OF assms] c
    by simp
qed

lemma read_u16_Inr: "read_u16 s i = Inr (v, i1) \<Longrightarrow> v = u16_at s i \<and> i1 = i + 2"
  by (auto simp: read_u16_def split: if_splits)

lemma read_u32_Inr: "read_u32 s i = Inr (v, i1) \<Longrightarrow> v = u32_at s i \<and> i1 = i + 4"
  by (auto simp: read_u32_def split: if_splits)

lemma bind_err_Inr_cases:
  assumes "bind_err m k = Inr y"
    and "\<And>x. m = Inr x \<Longrightarrow> k x = Inr y \<Longrightarrow> P"
  shows P
  using assms by (cases m) simp_all

lemma read_phasor_Inr:
  assumes "read_phasor L p s i j = Inr (v, i1)"
  shows "v = phasor_at L p s i j \<and> i1 = i + (if FormatPhasorType p then 8 else 4)"
  using assms
  by (auto simp: read_phasor_def phasor_at_def split: if_splits
      elim!: bind_err_Inr_cases dest!: read_u16_Inr read_u32_Inr)

lemma unpack_phasors_Inr:
  "unpack_phasors L s p i j n = (q, Inr i1) \<Longrightarrow>
     i1 = i + (if FormatPhasorType p then 8 else 4) * n
     \<and> q = p\<lparr>PhasorValues := PhasorValues q\<rparr>
     \<and> length (PhasorValues q) = length (PhasorValues p)
     \<and> (\<forall>m<n. j + m < length (PhasorValues q)
            \<and> PhasorValues q ! (j + m)
                = phasor_at L p s (i + (if FormatPhasorType p then 8 else 4) * m) (j + m))
     \<and> (\<forall>m<j. PhasorValues q ! m = PhasorValues p ! m)"
proof (induction n arbitrary: p i j)
  case 0
  then show ?case by simp
next
  case (Suc n)
  let ?w = "if FormatPhasorType p then 8 else 4 :: nat"
  from Suc.prems obtain v i2 where rd: "read_phasor L p s i j = Inr (v, i2)"
    by (cases "read_phasor L p s i j") auto
  from read_phasor_Inr [OF rd] have v: "v = phasor_at L p s i j" and i2: "i2 = i + ?w"
    by simp_all
  have j: "j < length (PhasorValues p)"
    using Suc.prems rd by (auto split: if_splits)
  let ?p = "p\<lparr>PhasorValues := (PhasorValues p)[j := v]\<rparr>"
  have rec: "unpack_phasors L s ?p i2 (Suc j) n = (q, Inr i1)"
    using Suc.prems rd j by simp
  have lay: "same_layout ?p p" by (simp add: same_layout_def)
  have w: "(if FormatPhasorType ?p then 8 else 4 :: nat) = ?w"
    using same_layout_formats(1) [OF lay] by simp
  note ih = Suc.IH [OF rec, unfolded w same_layout_values(1) [OF lay]]
  from ih have a: "i1 = i2 + ?w * n" and b: "q = ?p\<lparr>PhasorValues := PhasorValues q\<rparr>"
    and c: "length (PhasorValues q) = length (PhasorValues ?p)"
    and d: "\<And>m. m < n \<Longrightarrow> Suc j + m < length (PhasorValues q)
            \<and> PhasorValues q ! (Suc j + m) = phasor_at L p s (i2 + ?w * m) (Suc j + m)"
    and e: "\<And>m. m < Suc j \<Longrightarrow> PhasorValues q ! m = PhasorValues ?p ! m"
    by blast+
  have 1: "i1 = i + ?w * Suc n" using a i2 by simp
  have 2: "q = p\<lparr>PhasorValues := PhasorValues q\<rparr>" using b by simp
  have 3: "length (PhasorValues q) = length (PhasorValues p)" using c by simp
  have 4: "j + m < length (PhasorValues q)
            \<and> PhasorValues q ! (j + m) = phasor_at L p s (i + ?w * m) (j + m)"
    if "m < Suc n" for m
  proof (cases m)
    case 0
    have "PhasorValues q ! j = v" using e [of j] j by simp
    then show ?thesis using 0 v j 3 by simp
  next
    case (Suc m1)
    then have "m1 < n" using that by simp
    from d [OF this] show ?thesis
      unfolding Suc i2 by (simp add: algebra_simps)
  qed
  have 5: "PhasorValues q ! m = PhasorValues p ! m" if "m < j" for m
    using e [of m] that by simp
  show ?case using 1 2 3 4 5 by blast
qed

lemma unpack_freq_Inr:
  assumes "unpack_freq L s p i = (q, Inr i1)"
  shows "i1 = i + (if FormatFreqType p then 8 else 4)
     \<and> q = p\<lparr>Freq := freq_at L p s i, DFreq := dfreq_at L p s i\<rparr>"
proof (cases "FormatFreqType p")
  case True
  with assms obtain v1 i2 v2 where "read_u32 s i = Inr (v1, i2)" "read_u32 s i2 = Inr (v2, i1)"
    and q: "q = p\<lparr>Freq := Float32frombits L v1, DFreq := Float32frombits L v2\<rparr>"
    by (auto simp: unpack_freq_def Let_def split: sum.splits)
  then have "v1 = u32_at s i" "i2 = i + 4" "v2 = u32_at s (i + 4)" "i1 = i + 8"
    by (auto dest!: read_u32_Inr)
  with q True show ?thesis by (simp add: freq_at_def dfreq_at_def)
next
  case False
  with assms obtain v1 i2 v2 where "read_u16 s i = Inr (v1, i2)" "read_u16 s i2 = Inr (v2, i1)"
    and q: "q = p\<lparr>Freq := GetNominalFrequency p + of_int16 v1 / 1000, DFreq := of_int16 v2 / 100\<rparr>"
    by (auto simp: unpack_freq_def Let_def split: sum.splits elim!: bind_err_Inr_cases)
  then have "v1 = u16_at s i" "i2 = i + 2" "v2 = u16_at s (i + 2)" "i1 = i + 4"
    by (auto dest!: read_u16_Inr)
  with q False show ?thesis by (simp add: freq_at_def dfreq_at_def)
qed

lemma unpack_analogs_Inr:
  "unpack_analogs L s p i j n = (q, Inr i1) \<Longrightarrow>
     i1 = i + (if FormatAnalogType p then 4 else 2) * n
     \<and> q = p\<lparr>AnalogValues := AnalogValues q\<rparr>
     \<and> length (AnalogValues q) = length (AnalogValues p)
     \<and> (\<forall>m<n. j + m < length (AnalogValues q)
            \<and> AnalogValues q ! (j + m)
                = analog_at L p s (i + (if FormatAnalogType p then 4 else 2) * m))
     \<and> (\<forall>m<j. AnalogValues q ! m = AnalogValues p ! m)"
proof (induction n arbitrary: p i j)
  case 0
  then show ?case by simp
next
  case (Suc n)
  let ?w = "if FormatAnalogType p then 4 else 2 :: nat"
  let ?v = "analog_at L p s i"
  let ?p = "p\<lparr>AnalogValues := (AnalogValues p)[j := ?v]\<rparr>"
  have j: "j < length (AnalogValues p)"
    using Suc.prems by (auto split: if_splits sum.splits)
  have rec: "unpack_analogs L s ?p (i + ?w) (Suc j) n = (q, Inr i1)"
  proof (cases "FormatAnalogType p")
    case True
    with Suc.prems j obtain v i2 where rd: "read_u32 s i = Inr (v, i2)"
      by (cases "read_u32 s i") auto
    from read_u32_Inr [OF rd] Suc.prems True j rd show ?thesis
      by (simp add: analog_at_def)
  next
    case False
    with Suc.prems j obtain v i2 where rd: "read_u16 s i = Inr (v, i2)"
      by (cases "read_u16 s i") auto
    from read_u16_Inr [OF rd] Suc.prems False j rd show ?thesis
      by (simp add: analog_at_def)
  qed
  have lay: "same_layout ?p p" by (simp add: same_layout_def)
  have w: "(if FormatAnalogType ?p then 4 else 2 :: nat) = ?w"
    using same_layout_formats(4) [OF lay] by simp
  note ih = Suc.IH [OF rec, unfolded w same_layout_values(4) [OF lay]]
  from ih have a: "i1 = i + ?w + ?w * n" and b: "q = ?p\<lparr>AnalogValues := AnalogValues q\<rparr>"
    and c: "length (AnalogValues q) = length (AnalogValues ?p)"
    and d: "\<And>m. m < n \<Longrightarrow> Suc j + m < length (AnalogValues q)
            \<and> AnalogValues q ! (Suc j + m) = analog_at L p s (i + ?w + ?w * m)"
    and e: "\<And>m. m < Suc j \<Longrightarrow> AnalogValues q ! m = AnalogValues ?p ! m"
    by blast+
  have 1: "i1 = i + ?w * Suc n" using a by simp
  have 2: "q = p\<lparr>AnalogValues := AnalogValues q\<rparr>" using b by simp
  have 3: "length (AnalogValues q) = length (AnalogValues p)" using c by simp
  have 4: "j + m < length (AnalogValues q)
            \<and> AnalogValues q ! (j + m) = analog_at L p s (i + ?w * m)"
    if "m < Suc n" for m
  proof (cases m)
    case 0
    have "AnalogValues q ! j = ?v" using e [of j] j by simp
    then show ?thesis using 0 j 3 by simp
  next
    case (Suc m1)
    then have "m1 < n" using that by simp
    from d [OF this] show ?thesis
      unfolding Suc by (simp add: algebra_simps)
  qed
  have 5: "AnalogValues q ! m = AnalogValues p ! m" if "m < j" for m
    using e [of m] that by simp
  show ?case using 1 2 3 4 5 by blast
qed

lemma unpack_digitals_Inr:
  "unpack_digitals s p i j n = (q, Inr i1) \<Longrightarrow>
     i1 = i + 2 * n
     \<and> q = p\<lparr>DigitalValues := DigitalValues q\<rparr>
     \<and> length (DigitalValues q) = length (DigitalValues p)
     \<and> (\<forall>m<n. j + m < length (DigitalValues q) \<and> 16 \<le> length (DigitalValues p ! (j + m))
            \<and> DigitalValues q ! (j + m)
                = digital_bits (u16_at s (i + 2 * m)) (DigitalValues p ! (j + m)))
     \<and> (\<forall>m<j. DigitalValues q ! m = DigitalValues p ! m)"
proof (induction n arbitrary: p i j)
  case 0
  then show ?case by simp
next
  case (Suc n)
  let ?v = "digital_bits (u16_at s i) (DigitalValues p ! j)"
  let ?p = "p\<lparr>DigitalValues := (DigitalValues p)[j := ?v]\<rparr>"
  from Suc.prems obtain v i2 where rd: "read_u16 s i = Inr (v, i2)"
    by (cases "read_u16 s i") auto
  have j: "j < length (DigitalValues p)" "16 \<le> length (DigitalValues p ! j)"
    using Suc.prems rd by (auto split: if_splits)
  have rec: "unpack_digitals s ?p (i + 2) (Suc j) n = (q, Inr i1)"
    using read_u16_Inr [OF rd] Suc.prems rd j by simp
  note ih = Suc.IH [OF rec]
  from ih have a: "i1 = i + 2 + 2 * n" and b: "q = ?p\<lparr>DigitalValues := DigitalValues q\<rparr>"
    and c: "length (DigitalValues q) = length (DigitalValues ?p)"
    and d: "\<And>m. m < n \<Longrightarrow> Suc j + m < length (DigitalValues q)
            \<and> 16 \<le> length (DigitalValues ?p ! (Suc j + m))
            \<and> DigitalValues q ! (Suc j + m)
                = digital_bits (u16_at s (i + 2 + 2 * m)) (DigitalValues ?p ! (Suc j + m))"
    and e: "\<And>m. m < Suc j \<Longrightarrow> DigitalValues q ! m = DigitalValues ?p ! m"
    by blast+
  have 1: "i1 = i + 2 * Suc n" using a by simp
  have 2: "q = p\<lparr>DigitalValues := DigitalValues q\<rparr>" using b by simp
  have 3: "length (DigitalValues q) = length (DigitalValues p)" using c by simp
  have 4: "j + m < length (DigitalValues q) \<and> 16 \<le> length (DigitalValues p ! (j + m))
            \<and> DigitalValues q ! (j + m)
                = digital_bits (u16_at s (i + 2 * m)) (DigitalValues p ! (j + m))"
    if "m < Suc n" for m
  proof (cases m)
    case 0
    have "DigitalValues q ! j = ?v" using e [of j] j by simp
    then show ?thesis using 0 j 3 by simp
  next
    case (Suc m1)
    then have "m1 < n" using that by simp
    from d [OF this] show ?thesis
      unfolding Suc by (simp add: algebra_simps)
  qed
  have 5: "DigitalValues q ! m = DigitalValues p ! m" if "m < j" for m
    using e [of m] that by simp
  show ?case using 1 2 3 4 5 by blast
qed

lemma fold_update_prefix:
  "n \<le> length bs \<Longrightarrow> fold (\<lambda>k b. b[k := f k]) [0 ..< n] bs = map f [0 ..< n] @ drop n bs"
proof (induction n)
  case 0
  then show ?case by simp
next
  case (Suc n)
  then have n: "n < length bs" by simp
  have "fold (\<lambda>k b. b[k := f k]) [0 ..< Suc n] bs = (map f [0 ..< n] @ drop n bs)[n := f n]"
    using Suc by simp
  also have "\<dots> = map f [0 ..< n] @ (drop n bs)[0 := f n]"
    by (simp add: list_update_append)
  also have "(drop n bs)[0 := f n] = f n # drop (Suc n) bs"
    using n by (simp add: Cons_nth_drop_Suc [symmetric])
  finally show ?case by simp
qed

lemma digital_bits_take:
  assumes "16 \<le> length bs"
  shows "take 16 (digital_bits w bs) = map (\<lambda>k. bit w k) [0 ..< 16]"
proof -
  have "digital_bits w bs = map (\<lambda>k. w AND push_bit k 1 \<noteq> 0) [0 ..< 16] @ drop 16 bs"
    unfolding digital_bits_def using assms by (rule fold_update_prefix)
  then have "take 16 (digital_bits w bs) = map (\<lambda>k. w AND push_bit k 1 \<noteq> 0) [0 ..< 16]"
    by simp
  also have "\<dots> = map (\<lambda>k. bit w k) [0 ..< 16]"
    by (simp only: bit_iff_and_push_bit_not_eq_0)
  finally show ?thesis .
qed

lemma and_then_Inr:
  assumes "and_then r k = (q, Inr i1)"
  obtains p1 i2 where "r = (p1, Inr i2)" and "k p1 i2 = (q, Inr i1)"
proof (cases r)
  case (Pair p1 res)
  with assms show ?thesis
    by (cases res) (auto intro: that)
qed

lemma take_eq_map:
  assumes "\<forall>m<n. m < length xs \<and> xs ! m = f m"
  shows "take n xs = map f [0 ..< n]"
proof (rule nth_equalityI)
  show "length (take n xs) = length (map f [0 ..< n])"
  proof (cases n)
    case 0
    then show ?thesis by simp
  next
    case (Suc k)
    with assms have "k < length xs" by simp
    with Suc show ?thesis by simp
  qed
next
  fix m assume "m < length (take n xs)"
  then have "m < n" by simp
  with assms show "take n xs ! m = map f [0 ..< n] ! m" by simp
qed

lemma unpack_data_station_Inr:
  assumes "unpack_data_station L s p i = (q, Inr i1)"
  shows "i1 = i + data_station_bytes p \<and> same_layout q p \<and> holds_payload L p s i q"
proof -
  let ?np = "unat (Phnmr p)" and ?na = "unat (Annmr p)" and ?nd = "unat (Dgnmr p)"
  let ?wp = "if FormatPhasorType p then 8 else 4 :: nat"
  let ?wf = "if FormatFreqType p then 8 else 4 :: nat"
  let ?wa = "if FormatAnalogType p then 4 else 2 :: nat"
  from assms obtain st i0 where rd: "read_u16 s i = Inr (st, i0)"
    by (cases "read_u16 s i") (auto simp: unpack_data_station_def)
  from read_u16_Inr [OF rd] have st: "st = u16_at s i" and i0: "i0 = i + 2" by simp_all
  let ?p1 = "p\<lparr>Stat := st\<rparr>"
  have l1: "same_layout ?p1 p" by (simp add: same_layout_def)
  from assms have steps:
    "and_then (unpack_phasors L s ?p1 i0 0 ?np) (\<lambda>pmu2 i2.
     and_then (unpack_freq L s pmu2 i2) (\<lambda>pmu3 i3.
     and_then (unpack_analogs L s pmu3 i3 0 (unat (Annmr pmu3))) (\<lambda>pmu4 i4.
     unpack_digitals s pmu4 i4 0 (unat (Dgnmr pmu4))))) = (q, Inr i1)"
    unfolding unpack_data_station_def rd by simp
  from steps obtain p2 i2 where
    ph: "unpack_phasors L s ?p1 i0 0 ?np = (p2, Inr i2)"
    and steps2: "and_then (unpack_freq L s p2 i2) (\<lambda>pmu3 i3.
     and_then (unpack_analogs L s pmu3 i3 0 (unat (Annmr pmu3))) (\<lambda>pmu4 i4.
     unpack_digitals s pmu4 i4 0 (unat (Dgnmr pmu4)))) = (q, Inr i1)"
    by (rule and_then_Inr)
  from steps2 obtain p3 i3 where
    fq: "unpack_freq L s p2 i2 = (p3, Inr i3)"
    and steps3: "and_then (unpack_analogs L s p3 i3 0 (unat (Annmr p3))) (\<lambda>pmu4 i4.
     unpack_digitals s pmu4 i4 0 (unat (Dgnmr pmu4))) = (q, Inr i1)"
    by (rule and_then_Inr)
  from steps3 obtain p4 i4 where
    an: "unpack_analogs L s p3 i3 0 (unat (Annmr p3)) = (p4, Inr i4)"
    and dg: "unpack_digitals s p4 i4 0 (unat (Dgnmr p4)) = (q, Inr i1)"
    by (rule and_then_Inr)
  note P = unpack_phasors_Inr [OF ph, unfolded same_layout_formats(1) [OF l1]
      same_layout_values(1) [OF l1]]
  from P have p2: "p2 = ?p1\<lparr>PhasorValues := PhasorValues p2\<rparr>"
    and i2: "i2 = i0 + ?wp * ?np"
    and pv: "\<forall>m<?np. 0 + m < length (PhasorValues p2)
        \<and> PhasorValues p2 ! (0 + m) = phasor_at L p s (i0 + ?wp * m) (0 + m)"
    by blast+
  have l2: "same_layout p2 p" by (subst p2) (simp add: same_layout_def)
  note F = unpack_freq_Inr [OF fq, unfolded same_layout_formats(3) [OF l2]
      same_layout_values(2,3) [OF l2]]
  from F have p3: "p3 = p2\<lparr>Freq := freq_at L p s i2, DFreq := dfreq_at L p s i2\<rparr>"
    and i3: "i3 = i2 + ?wf" by blast+
  have l3: "same_layout p3 p" using l2 by (subst p3) (simp add: same_layout_def)
  have n3: "unat (Annmr p3) = ?na" using l3 by (simp add: same_layout_def)
  note A = unpack_analogs_Inr [OF an, unfolded n3 same_layout_formats(4) [OF l3]
      same_layout_values(4) [OF l3]]
  from A have p4: "p4 = p3\<lparr>AnalogValues := AnalogValues p4\<rparr>"
    and i4: "i4 = i3 + ?wa * ?na"
    and av: "\<forall>m<?na. 0 + m < length (AnalogValues p4)
        \<and> AnalogValues p4 ! (0 + m) = analog_at L p s (i3 + ?wa * m)"
    by blast+
  have l4: "same_layout p4 p" using l3 by (subst p4) (simp add: same_layout_def)
  have n4: "unat (Dgnmr p4) = ?nd" using l4 by (simp add: same_layout_def)
  note D = unpack_digitals_Inr [OF dg, unfolded n4]
  from D have q: "q = p4\<lparr>DigitalValues := DigitalValues q\<rparr>"
    and i1: "i1 = i4 + 2 * ?nd"
    and dv: "\<forall>m<?nd. 0 + m < length (DigitalValues q) \<and> 16 \<le> length (DigitalValues p4 ! (0 + m))
        \<and> DigitalValues q ! (0 + m)
            = digital_bits (u16_at s (i4 + 2 * m)) (DigitalValues p4 ! (0 + m))"
    by blast+
  have lq: "same_layout q p" using l4 by (subst q) (simp add: same_layout_def)
  have size: "i1 = i + data_station_bytes p"
    by (simp add: i1 i4 i3 i2 i0 data_station_bytes_def)
  have fields: "Stat q = st" "PhasorValues q = PhasorValues p2"
    "Freq q = freq_at L p s i2" "DFreq q = dfreq_at L p s i2"
    "AnalogValues q = AnalogValues p4"
    by (subst q, subst p4, subst p3, subst p2, simp)+
  have t1: "take ?np (PhasorValues p2) = map (\<lambda>j. phasor_at L p s (i0 + ?wp * j) j) [0 ..< ?np]"
    by (rule take_eq_map) (use pv in simp)
  have t2: "take ?na (AnalogValues p4) = map (\<lambda>j. analog_at L p s (i3 + ?wa * j)) [0 ..< ?na]"
    by (rule take_eq_map) (use av in simp)
  have "take ?nd (map (take 16) (DigitalValues q))
      = map (\<lambda>j. digital_at s (i4 + 2 * j)) [0 ..< ?nd]"
  proof (rule take_eq_map, intro allI impI)
    fix m assume m: "m < ?nd"
    with dv have a: "m < length (DigitalValues q)" "16 \<le> length (DigitalValues p4 ! m)"
      "DigitalValues q ! m = digital_bits (u16_at s (i4 + 2 * m)) (DigitalValues p4 ! m)"
      by simp_all
    show "m < length (map (take 16) (DigitalValues q))
        \<and> map (take 16) (DigitalValues q) ! m = digital_at s (i4 + 2 * m)"
      using a(1) by (simp add: a(3) digital_bits_take [OF a(2)] digital_at_def)
  qed
  then have t3: "map (take 16) (take ?nd (DigitalValues q))
      = map (\<lambda>j. digital_at s (i4 + 2 * j)) [0 ..< ?nd]"
    by (simp add: take_map)
  have "holds_payload L p s i q"
    unfolding holds_payload_def Let_def fields
    using t1 t2 t3 by (simp add: st i0 i2 i3 i4)
  with size lq show ?thesis by simp
qed

lemma update_same_layout:
  assumes "r < length h" and "same_layout q (h ! r)"
  shows "same_layout (h[r := q] ! a) (h ! a)"
  using assms by (cases "a = r") simp_all

lemma unpack_data_stations_step:
  assumes "unpack_data_stations L s (r # refs) i h = (h1, Inr i1)"
  obtains q i2 where "r < length h" and "unpack_data_station L s (h ! r) i = (q, Inr i2)"
    and "unpack_data_stations L s refs i2 (h[r := q]) = (h1, Inr i1)"
proof -
  have r: "r < length h" using assms by (auto split: if_splits)
  obtain q res where u: "unpack_data_station L s (h ! r) i = (q, res)"
    by (cases "unpack_data_station L s (h ! r) i")
  show ?thesis
  proof (cases res)
    case (Inl e)
    with assms r u show ?thesis by simp
  next
    case (Inr i2)
    with assms r u show ?thesis by (auto intro: that)
  qed
qed

lemma unpack_data_stations_Inr:
  "unpack_data_stations L s refs i h = (h1, Inr i1) \<Longrightarrow>
     length h1 = length h
     \<and> (\<forall>a. same_layout (h1 ! a) (h ! a))
     \<and> (\<forall>a. a \<notin> set refs \<longrightarrow> h1 ! a = h ! a)
     \<and> i1 = i + sum_list (map (\<lambda>r. data_station_bytes (h ! r)) refs)"
proof (induction refs arbitrary: i h)
  case Nil
  then show ?case by simp
next
  case (Cons r refs)
  from Cons.prems obtain q i2 where r: "r < length h"
    and st: "unpack_data_station L s (h ! r) i = (q, Inr i2)"
    and rec: "unpack_data_stations L s refs i2 (h[r := q]) = (h1, Inr i1)"
    by (rule unpack_data_stations_step)
  from unpack_data_station_Inr [OF st] have i2: "i2 = i + data_station_bytes (h ! r)"
    and lq: "same_layout q (h ! r)" by simp_all
  note up = update_same_layout [OF r lq]
  from Cons.IH [OF rec] have a: "length h1 = length (h[r := q])"
    and b: "\<And>a. same_layout (h1 ! a) (h[r := q] ! a)"
    and c: "\<And>a. a \<notin> set refs \<Longrightarrow> h1 ! a = h[r := q] ! a"
    and d: "i1 = i2 + sum_list (map (\<lambda>r1. data_station_bytes (h[r := q] ! r1)) refs)"
    by blast+
  have 1: "length h1 = length h" using a by simp
  have 2: "same_layout (h1 ! a) (h ! a)" for a
    using same_layout_trans [OF b up] .
  have 3: "h1 ! a = h ! a" if "a \<notin> set (r # refs)" for a
    using c [of a] that by simp
  have "data_station_bytes (h[r := q] ! r1) = data_station_bytes (h ! r1)" for r1
    by (rule same_layout_values(5) [OF up])
  then have 4: "i1 = i + sum_list (map (\<lambda>r1. data_station_bytes (h ! r1)) (r # refs))"
    using d i2 by simp
  show ?case using 1 2 3 4 by blast
qed

lemma unpack_data_stations_payload:
  "unpack_data_stations L s refs i h = (h1, Inr i1) \<Longrightarrow> k < length refs \<Longrightarrow>
   refs ! k \<notin> set (drop (Suc k) refs) \<Longrightarrow>
     holds_payload L (h ! (refs ! k)) s
       (i + sum_list (map (\<lambda>r. data_station_bytes (h ! r)) (take k refs))) (h1 ! (refs ! k))"
proof (induction refs arbitrary: i h k)
  case Nil
  then show ?case by simp
next
  case (Cons r refs)
  from Cons.prems(1) obtain q i2 where r: "r < length h"
    and st: "unpack_data_station L s (h ! r) i = (q, Inr i2)"
    and rec: "unpack_data_stations L s refs i2 (h[r := q]) = (h1, Inr i1)"
    by (rule unpack_data_stations_step)
  from unpack_data_station_Inr [OF st] have i2: "i2 = i + data_station_bytes (h ! r)"
    and lq: "same_layout q (h ! r)" and pay: "holds_payload L (h ! r) s i q" by simp_all
  note up = update_same_layout [OF r lq]
  show ?case
  proof (cases k)
    case 0
    then have "r \<notin> set refs" using Cons.prems(3) by simp
    with unpack_data_stations_Inr [OF rec] have "h1 ! r = h[r := q] ! r" by blast
    then have "h1 ! r = q" using r by simp
    with pay 0 show ?thesis by simp
  next
    case (Suc k1)
    then have k1: "k1 < length refs" "refs ! k1 \<notin> set (drop (Suc k1) refs)"
      using Cons.prems(2,3) by simp_all
    have bytes: "data_station_bytes (h[r := q] ! r1) = data_station_bytes (h ! r1)" for r1
      by (rule same_layout_values(5) [OF up])
    from Cons.IH [OF rec k1]
    have "holds_payload L (h ! (refs ! k1)) s
       (i2 + sum_list (map (\<lambda>r1. data_station_bytes (h ! r1)) (take k1 refs))) (h1 ! (refs ! k1))"
      unfolding bytes same_layout_payload [OF up] .
    then show ?thesis
      unfolding Suc i2 by (simp add: add.assoc)
  qed
qed

lemma station0_eq:
  "station0 = \<lparr>Sync = 0, FrameSize = 0, IDCode = 1, SOC = 0, FracSec = 0, CHK = 0,
      STN = [], Format = 0, Phnmr = 1, Annmr = 1, Dgnmr = 1,
      CHNAMPhasor = [replicate 16 0x20], CHNAMAnalog = [replicate 16 0x20], CHNAMDigital = [],
      Phunit = [100000], Anunit = [1], Dgunit = [0],
      Fnom = 0, CfgCnt = 0, Stat = 0,
      PhasorValues = [0], AnalogValues = [0], DigitalValues = [replicate 16 False],
      Freq = 0, DFreq = 0\<rparr>"
  by (simp add: station0_def AddPhasor_def AddAnalog_def AddDigital_def NewPMUStation_def
      SetFormat_def padString_def)

lemma of_int16_small: "of_int16 3 = 3" "of_int16 4 = 4" "of_int16 5 = 5"
  "of_int16 1000 = 1000" "of_int16 100 = 100"
  by (simp_all add: of_int16_def)

lemma digital_bits_8001:
  "digital_bits 0x8001 (replicate 16 False)
     = [True, False, False, False, False, False, False, False,
        False, False, False, False, False, False, False, True]"
proof -
  have "digital_bits 0x8001 (replicate 16 False)
      = map (\<lambda>k. (0x8001 :: uint16) AND push_bit k 1 \<noteq> 0) [0 ..< 16] @ drop 16 (replicate 16 False)"
    unfolding digital_bits_def by (rule fold_update_prefix) simp
  also have "[0 ..< 16] = [0, 1, 2, 3, 4, 5, 6, 7, 8, 9, 10, 11, 12, 13, 14, 15 :: nat]"
    by (simp add: upt_rec)
  finally show ?thesis by simp
qed

lemma corrupt_data_frame_parse:
  "unpack_data_stations lib0 corrupt_data_frame [0] 14 [station0]
     = ([station0\<lparr>Stat := 0xBEEF, PhasorValues := [Complex 3 4], Freq := 61, DFreq := 1,
                   AnalogValues := [5],
                   DigitalValues := [[True, False, False, False, False, False, False, False,
                     False, False, False, False, False, False, False, True]]\<rparr>], Inr 28)"
  by (simp add: corrupt_data_frame_def station0_eq unpack_data_station_def read_phasor_def
      unpack_freq_def FormatPhasorType_def FormatCoord_def FormatFreqType_def FormatAnalogType_def
      GetPhasorFactor_def GetNominalFrequency_def FreqNom50Hz_def of_int16_small bytes_eval
      digital_bits_8001 lib0_def)


lemma of_int16_more: "of_int16 0 = 0" "of_int16 1 = 1" "of_int16 2 = 2" "of_int16 7 = 7"
  by (simp_all add: of_int16_def)

lemma digital_bits_0002:
  "digital_bits 0x0002 [True, False, False, False, False, False, False, False,
        False, False, False, False, False, False, False, True]
     = [False, True, False, False, False, False, False, False,
        False, False, False, False, False, False, False, False]"
proof -
  let ?bs = "[True, False, False, False, False, False, False, False,
        False, False, False, False, False, False, False, True]"
  have "digital_bits 0x0002 ?bs
      = map (\<lambda>k. (0x0002 :: uint16) AND push_bit k 1 \<noteq> 0) [0 ..< 16] @ drop 16 ?bs"
    unfolding digital_bits_def by (rule fold_update_prefix) simp
  also have "[0 ..< 16] = [0, 1, 2, 3, 4, 5, 6, 7, 8, 9, 10, 11, 12, 13, 14, 15 :: nat]"
    by (simp add: upt_rec)
  finally show ?thesis by simp
qed

lemma corrupt_twice_frame_parse:
  "unpack_data_stations lib0 corrupt_twice_frame [0, 0] 14 [station0]
     = ([station0\<lparr>Stat := 0x1234, PhasorValues := [Complex 1 2], Freq := 60, DFreq := 0,
                   AnalogValues := [7],
                   DigitalValues := [[False, True, False, False, False, False, False, False,
                     False, False, False, False, False, False, False, False]]\<rparr>], Inr 42)"
  by (simp add: corrupt_twice_frame_def station0_eq unpack_data_station_def read_phasor_def
      unpack_freq_def FormatPhasorType_def FormatCoord_def FormatFreqType_def FormatAnalogType_def
      GetPhasorFactor_def GetNominalFrequency_def FreqNom50Hz_def of_int16_small of_int16_more
      bytes_eval digital_bits_8001 digital_bits_0002 lib0_def)

text \<open>
  Claim C10. \<^verbatim>\<open>DataFrame.Unpack\<close> writes the decoded values into the station objects of
  the directory while it parses and compares the checksum afterwards. When the frame has a
  directory, the header and the declared size are in range, the payload parses and the
  checksum does not match, the call returns the checksum error and leaves the store as the
  parse wrote it: every station of the directory holds the status word, the phasors, the
  frequency and its rate of change, the analog values and the digital bits that the rejected
  frame carries at the station's position. For a station that the list holds more than once
  this is its last position in the list.
\<close>

theorem DataFrame_Unpack_not_atomic:
  assumes "AssociatedConfig d = Some cfg"
    and "16 \<le> length data" and "16 \<le> u16_at data 2"
    and "unpack_data_stations L data (PMUStationList cfg) 14 h = (h1, Inr i)"
    and "unat (u16_at data 2) \<le> length data"
    and "CalcCRC (take (unat (u16_at data 2) - 2) data) \<noteq> u16_at data (unat (u16_at data 2) - 2)"
  shows "snd (DataFrame_Unpack L d data h) = Some ErrCRCFailed
    \<and> snd (fst (DataFrame_Unpack L d data h)) = h1
    \<and> (\<forall>k < length (PMUStationList cfg).
          PMUStationList cfg ! k \<notin> set (drop (Suc k) (PMUStationList cfg)) \<longrightarrow>
          holds_payload L (h ! (PMUStationList cfg ! k)) data
            (payload_offset h (PMUStationList cfg) k) (h1 ! (PMUStationList cfg ! k)))"
proof -
  have "snd (DataFrame_Unpack L d data h) = Some ErrCRCFailed
      \<and> snd (fst (DataFrame_Unpack L d data h)) = h1"
    using assms(6) by (simp add: DataFrame_Unpack_parsed [OF assms(1-5)] Let_def)
  moreover have "holds_payload L (h ! (PMUStationList cfg ! k)) data
      (payload_offset h (PMUStationList cfg) k) (h1 ! (PMUStationList cfg ! k))"
    if "k < length (PMUStationList cfg)"
      and "PMUStationList cfg ! k \<notin> set (drop (Suc k) (PMUStationList cfg))" for k
    unfolding payload_offset_def by (rule unpack_data_stations_payload [OF assms(4) that])
  ultimately show ?thesis by blast
qed

theorem DataFrame_Unpack_not_atomic_witness:
  "Stat station0 = 0 \<and> PhasorValues station0 = [0] \<and> AnalogValues station0 = [0]
   \<and> snd (DataFrame_Unpack lib0 (NewDataFrame (Some directory0)) corrupt_data_frame [station0])
       = Some ErrCRCFailed
   \<and> snd (fst (DataFrame_Unpack lib0 (NewDataFrame (Some directory0)) corrupt_data_frame
         [station0]))
       = [station0\<lparr>Stat := 0xBEEF, PhasorValues := [Complex 3 4], Freq := 61, DFreq := 1,
                    AnalogValues := [5],
                    DigitalValues := [[True, False, False, False, False, False, False, False,
                      False, False, False, False, False, False, False, True]]\<rparr>]
   \<and> holds_payload lib0 station0 corrupt_data_frame 14
         (station0\<lparr>Stat := 0xBEEF, PhasorValues := [Complex 3 4], Freq := 61, DFreq := 1,
                    AnalogValues := [5],
                    DigitalValues := [[True, False, False, False, False, False, False, False,
                      False, False, False, False, False, False, False, True]]\<rparr>)
   \<and> snd (DataFrame_Unpack lib0 (NewDataFrame (Some directory00)) corrupt_twice_frame [station0])
       = Some ErrCRCFailed
   \<and> snd (fst (DataFrame_Unpack lib0 (NewDataFrame (Some directory00)) corrupt_twice_frame
         [station0]))
       = [station0\<lparr>Stat := 0x1234, PhasorValues := [Complex 1 2], Freq := 60, DFreq := 0,
                   AnalogValues := [7],
                   DigitalValues := [[False, True, False, False, False, False, False, False,
                     False, False, False, False, False, False, False, False]]\<rparr>]
   \<and> holds_payload lib0 station0 corrupt_twice_frame 28
         (station0\<lparr>Stat := 0x1234, PhasorValues := [Complex 1 2], Freq := 60, DFreq := 0,
                   AnalogValues := [7],
                   DigitalValues := [[False, True, False, False, False, False, False, False,
                     False, False, False, False, False, False, False, False]]\<rparr>)"
proof -
  have one:
    "Stat station0 = 0 \<and> PhasorValues station0 = [0] \<and> AnalogValues station0 = [0]
     \<and> snd (DataFrame_Unpack lib0 (NewDataFrame (Some directory0)) corrupt_data_frame [station0])
         = Some ErrCRCFailed
     \<and> snd (fst (DataFrame_Unpack lib0 (NewDataFrame (Some directory0)) corrupt_data_frame
           [station0]))
         = [station0\<lparr>Stat := 0xBEEF, PhasorValues := [Complex 3 4], Freq := 61, DFreq := 1,
                      AnalogValues := [5],
                      DigitalValues := [[True, False, False, False, False, False, False, False,
                        False, False, False, False, False, False, False, True]]\<rparr>]
     \<and> holds_payload lib0 station0 corrupt_data_frame 14
           (station0\<lparr>Stat := 0xBEEF, PhasorValues := [Complex 3 4], Freq := 61, DFreq := 1,
                      AnalogValues := [5],
                      DigitalValues := [[True, False, False, False, False, False, False, False,
                        False, False, False, False, False, False, False, True]]\<rparr>)"
  proof -
    have a: "AssociatedConfig (NewDataFrame (Some directory0)) = Some directory0"
      by (simp add: NewDataFrame_def)
    have refs: "PMUStationList directory0 = [0]"
      by (simp add: directory0_def AddPMUStation_def NewConfigFrame_def)
    have l: "16 \<le> length corrupt_data_frame" by (simp add: corrupt_data_frame_def)
    have fs: "u16_at corrupt_data_frame 2 = 30" by (simp add: corrupt_data_frame_def u16_at_def)
    have f: "16 \<le> u16_at corrupt_data_frame 2" by (simp add: fs)
    note p = corrupt_data_frame_parse [folded refs]
    have b: "unat (u16_at corrupt_data_frame 2) \<le> length corrupt_data_frame"
      by (simp add: fs) (simp add: corrupt_data_frame_def)
    have c: "CalcCRC (take (unat (u16_at corrupt_data_frame 2) - 2) corrupt_data_frame)
       \<noteq> u16_at corrupt_data_frame (unat (u16_at corrupt_data_frame 2) - 2)"
      by (simp add: fs) (simp add: corrupt_data_frame_def crc_eval u16_at_def)
    have o: "payload_offset [station0] [0] 0 = 14" by (simp add: payload_offset_def)
    have v: "Stat station0 = 0" "PhasorValues station0 = [0]" "AnalogValues station0 = [0]"
      by (simp_all add: station0_eq)
    from DataFrame_Unpack_not_atomic [OF a l f p b c]
    show ?thesis
      unfolding refs using o v by simp
  qed
  have two:
    "snd (DataFrame_Unpack lib0 (NewDataFrame (Some directory00)) corrupt_twice_frame [station0])
         = Some ErrCRCFailed
     \<and> snd (fst (DataFrame_Unpack lib0 (NewDataFrame (Some directory00)) corrupt_twice_frame
           [station0]))
         = [station0\<lparr>Stat := 0x1234, PhasorValues := [Complex 1 2], Freq := 60, DFreq := 0,
                     AnalogValues := [7],
                     DigitalValues := [[False, True, False, False, False, False, False, False,
                       False, False, False, False, False, False, False, False]]\<rparr>]
     \<and> holds_payload lib0 station0 corrupt_twice_frame 28
           (station0\<lparr>Stat := 0x1234, PhasorValues := [Complex 1 2], Freq := 60, DFreq := 0,
                     AnalogValues := [7],
                     DigitalValues := [[False, True, False, False, False, False, False, False,
                       False, False, False, False, False, False, False, False]]\<rparr>)"
  proof -
    have a: "AssociatedConfig (NewDataFrame (Some directory00)) = Some directory00"
      by (simp add: NewDataFrame_def)
    have refs: "PMUStationList directory00 = [0, 0]"
      by (simp add: directory00_def AddPMUStation_def NewConfigFrame_def)
    have l: "16 \<le> length corrupt_twice_frame" by (simp add: corrupt_twice_frame_def)
    have fs: "u16_at corrupt_twice_frame 2 = 44" by (simp add: corrupt_twice_frame_def u16_at_def)
    have f: "16 \<le> u16_at corrupt_twice_frame 2" by (simp add: fs)
    note p = corrupt_twice_frame_parse [folded refs]
    have b: "unat (u16_at corrupt_twice_frame 2) \<le> length corrupt_twice_frame"
      by (simp add: fs) (simp add: corrupt_twice_frame_def)
    have c: "CalcCRC (take (unat (u16_at corrupt_twice_frame 2) - 2) corrupt_twice_frame)
       \<noteq> u16_at corrupt_twice_frame (unat (u16_at corrupt_twice_frame 2) - 2)"
      by (simp add: fs) (simp add: corrupt_twice_frame_def crc_eval u16_at_def)
    have o: "payload_offset [station0] [0, 0] (Suc 0) = 28"
      by (simp add: payload_offset_def data_station_bytes_def station0_eq FormatPhasorType_def
          FormatFreqType_def FormatAnalogType_def)
    note t = DataFrame_Unpack_not_atomic [OF a l f p b c, unfolded refs]
    from t have "(1 :: nat) < length [0 :: nat, 0]
        \<longrightarrow> [0 :: nat, 0] ! 1 \<notin> set (drop (Suc 1) [0 :: nat, 0])
        \<longrightarrow> holds_payload lib0 ([station0] ! ([0, 0] ! 1)) corrupt_twice_frame
              (payload_offset [station0] [0, 0] 1)
              ([station0\<lparr>Stat := 0x1234, PhasorValues := [Complex 1 2], Freq := 60, DFreq := 0,
                     AnalogValues := [7],
                     DigitalValues := [[False, True, False, False, False, False, False, False,
                       False, False, False, False, False, False, False, False]]\<rparr>] ! ([0, 0] ! 1))"
      by blast
    then have "holds_payload lib0 station0 corrupt_twice_frame 28
           (station0\<lparr>Stat := 0x1234, PhasorValues := [Complex 1 2], Freq := 60, DFreq := 0,
                     AnalogValues := [7],
                     DigitalValues := [[False, True, False, False, False, False, False, False,
                       False, False, False, False, False, False, False, False]]\<rparr>)"
      by (simp add: o)
    with t show ?thesis by simp
  qed
  from one two show ?thesis by simp
qed

section \<open>Reading frames from the stream\<close>

declare read_until.simps [simp del]

lemma read_until_done:
  "\<not> tot < tgt \<Longrightarrow> read_until tgt buf tot cs = Some (buf, tot, cs, None)"
  by (simp add: read_until.simps)

lemma read_until_step:
  assumes "tot < tgt" and "tot + length c \<le> length buf"
  shows "read_until tgt buf tot (c # cs) =
     read_until tgt (take tot buf @ c @ drop (tot + length c) buf) (tot + length c) cs"
proof (cases "length buf \<le> tot")
  case True
  have l: "read_until tgt buf tot (c # cs) = None"
    using assms(1) True by (subst read_until.simps) simp
  have "length (take tot buf @ c @ drop (tot + length c) buf) \<le> tot + length c"
    using assms(2) True by simp
  moreover have "tot + length c < tgt" using assms True by arith
  ultimately have "read_until tgt (take tot buf @ c @ drop (tot + length c) buf) (tot + length c) cs
      = None"
    by (subst read_until.simps) simp
  with l show ?thesis by simp
next
  case False
  have "length c \<le> length buf - tot" using assms(2) by arith
  with False assms(1) show ?thesis
    by (subst read_until.simps) (simp add: conn_read_def)
qed

lemma u16_at_append: "i + 2 \<le> length xs \<Longrightarrow> u16_at (xs @ ys) i = u16_at xs i"
  by (simp add: u16_at_def nth_append)

lemma read_until_eof:
  "tot < tgt \<Longrightarrow> tot < length buf \<Longrightarrow> read_until tgt buf tot [] = Some (buf, tot, [], Some EOF)"
  by (subst read_until.simps) (simp add: conn_read_def)

lemma UnpackFrame_header7_frame:
  "UnpackFrame L header7_frame cfg h = ((Some (FrameHeader header7), h), None)"
  by (simp add: UnpackFrame_by_type header7_frame_def HeaderFrame_Unpack_def zero_HeaderFrame_def
      header7_def crc_eval bytes_eval)

lemma ReadFrame_one_chunk:
  assumes buf: "length (Buffer p) = 65536" and sock: "Socket p = c # rest"
    and l4: "4 \<le> length c" and fit: "length c \<le> 65536"
    and sz: "unat (u16_at c 2) \<le> length c"
    and dec: "UnpackFrame L (take (unat (u16_at c 2)) c) (PMUConfig2 p) (Stations p)
                = ((fr, h1), err)"
    and ret: "err \<noteq> Some Panic"
  shows "ReadFrame L p =
     Some ((fr, err),
           p\<lparr>Socket := rest, Buffer := c @ drop (length c) (Buffer p), Stations := h1\<rparr>)"
proof -
  let ?buf1 = "c @ drop (length c) (Buffer p)"
  have "read_until 4 (Buffer p) 0 (c # rest) = read_until 4 ?buf1 (length c) rest"
    using read_until_step [of 0 4 c "Buffer p" rest] fit buf by simp
  then have rd1: "read_until 4 (Buffer p) 0 (c # rest) = Some (?buf1, length c, rest, None)"
    using l4 by (simp add: read_until_done)
  have size1: "u16_at ?buf1 2 = u16_at c 2"
    using l4 by (simp add: u16_at_append)
  have rd2: "read_until (unat (u16_at c 2)) ?buf1 (length c) rest = Some (?buf1, length c, rest, None)"
    using sz by (simp add: read_until_done)
  have tk: "take (unat (u16_at c 2)) ?buf1 = take (unat (u16_at c 2)) c"
    using sz by simp
  show ?thesis
    unfolding ReadFrame_def sock rd1 option.case prod.case Let_def size1 rd2 tk dec
    using ret by simp
qed

text \<open>
  Claim C5 at a read that holds two frames. When two header frames arrive in one read of
  32 bytes, the first call of \<^verbatim>\<open>ReadFrame\<close> reads all 32 bytes into the buffer, decodes
  the first 16 and returns; the second call starts its count at zero again and reads from
  the connection, which is at its end, so it returns the end-of-input error and the second
  frame is lost. Delivered one frame per read, the same two frames are both decoded.
\<close>

theorem ReadFrame_coalesced_read_loses_frame:
  "ReadFrames lib0 2 (NewPDC [header7_frame @ header7_frame])
      = Some [(Some (FrameHeader header7), None), (None, Some EOF)]
   \<and> ReadFrames lib0 2 (NewPDC [header7_frame, header7_frame])
      = Some [(Some (FrameHeader header7), None), (Some (FrameHeader header7), None)]"
proof -
  have s: "unat (u16_at header7_frame 2) = 16" "length header7_frame = 16"
    by (simp_all add: header7_frame_def u16_at_def)
  have s2: "u16_at (header7_frame @ header7_frame) 2 = u16_at header7_frame 2"
    by (simp add: u16_at_append s)
  let ?p1 = "NewPDC [header7_frame @ header7_frame]\<lparr>Socket := [],
       Buffer := (header7_frame @ header7_frame) @ drop 32 (replicate 65536 0), Stations := []\<rparr>"
  have a1: "ReadFrame lib0 (NewPDC [header7_frame @ header7_frame])
      = Some ((Some (FrameHeader header7), None), ?p1)"
    using ReadFrame_one_chunk [of "NewPDC [header7_frame @ header7_frame]"
        "header7_frame @ header7_frame" "[]" lib0 "Some (FrameHeader header7)" "[]" None]
    by (simp add: s s2 UnpackFrame_header7_frame NewPDC_def)
  have a2: "ReadFrame lib0 ?p1 = Some ((None, Some EOF), ?p1)"
    by (simp add: ReadFrame_def NewPDC_def read_until_eof s)
  let ?q1 = "NewPDC [header7_frame, header7_frame]\<lparr>Socket := [header7_frame],
       Buffer := header7_frame @ drop 16 (replicate 65536 0), Stations := []\<rparr>"
  have b1: "ReadFrame lib0 (NewPDC [header7_frame, header7_frame])
      = Some ((Some (FrameHeader header7), None), ?q1)"
    using ReadFrame_one_chunk [of "NewPDC [header7_frame, header7_frame]" header7_frame
        "[header7_frame]" lib0 "Some (FrameHeader header7)" "[]" None]
    by (simp add: s UnpackFrame_header7_frame NewPDC_def)
  have b2: "ReadFrame lib0 ?q1 = Some ((Some (FrameHeader header7), None),
       ?q1\<lparr>Socket := [], Buffer := header7_frame @ drop 16 (Buffer ?q1), Stations := []\<rparr>)"
    using ReadFrame_one_chunk [of ?q1 header7_frame "[]" lib0 "Some (FrameHeader header7)" "[]" None]
    by (simp add: s UnpackFrame_header7_frame NewPDC_def)
  have two: "ReadFrames L 2 p =
     (case ReadFrame L p of None \<Rightarrow> None
      | Some (r, p1) \<Rightarrow> (case ReadFrame L p1 of None \<Rightarrow> None | Some (r2, p2) \<Rightarrow> Some [r, r2]))" for L p
    by (simp add: numeral_2_eq_2 split: option.split)
  show ?thesis
    unfolding two a1 b1 option.case prod.case a2 b2 by simp
qed

section \<open>The round trip at scale factor 915527\<close>

lemma station7_eq:
  "station7 = \<lparr>Sync = 0, FrameSize = 0, IDCode = 1, SOC = 0, FracSec = 0, CHK = 0,
      STN = [], Format = 0, Phnmr = 1, Annmr = 0, Dgnmr = 0,
      CHNAMPhasor = [replicate 16 0x20], CHNAMAnalog = [], CHNAMDigital = [],
      Phunit = [915527], Anunit = [], Dgunit = [],
      Fnom = 0, CfgCnt = 0, Stat = 0,
      PhasorValues = [Complex 3 4], AnalogValues = [], DigitalValues = [],
      Freq = 60, DFreq = 0\<rparr>"
  by (simp add: station7_def AddPhasor_def NewPMUStation_def SetFormat_def padString_def)

lemma trunc_small: "trunc (300000 / 915527) = 0" "trunc (400000 / 915527) = 0" "trunc 0 = 0"
  by (simp_all add: trunc_def)

lemma pack7: "pack_data_station L station7 = Inr [0, 0, 0, 0, 0, 0, 0, 0, 0, 0]"
  by (simp add: station7_eq pack_data_station_def pack_phasor_def pack_freq_def
      FormatPhasorType_def FormatCoord_def FormatFreqType_def FormatAnalogType_def
      GetPhasorFactor_def GetNominalFrequency_def FreqNom50Hz_def to_int16_def trunc_small
      be16_def)

lemma directory7_stations: "PMUStationList directory7 = [0]"
  by (simp add: directory7_def AddPMUStation_def NewConfigFrame_def)

lemma stations7: "stations_of [station7] [0] = Inr [station7]"
  by (simp add: stations_of_def)

lemma size7: "data_frame_size [station7] = 26"
  by (simp add: data_frame_size_def data_station_size_def station7_eq
      FormatPhasorType_def FormatFreqType_def FormatAnalogType_def)

lemma hdr7: "write_header ((NewDataFrame (Some directory7))\<lparr>FrameSize := 26\<rparr>)
   = [0xAA, 0x01, 0x00, 0x1A, 0, 0, 0, 0, 0, 0, 0, 0, 0, 0]"
  by (simp add: NewDataFrame_def SyncAA_def SyncData_def write_header_def be16_def be32_def)

lemma crc7: "be16 (CalcCRC [0xAA, 0x01, 0x00, 0x1A, 0, 0, 0, 0, 0, 0, 0, 0, 0, 0,
             0, 0, 0, 0, 0, 0, 0, 0, 0, 0]) = [0x14, 0xB4]"
  by (simp add: crc_eval be16_def)

lemma pack_frame7: "DataFrame_Pack L (NewDataFrame (Some directory7)) [station7] = Inr frame7"
proof -
  have a: "AssociatedConfig (NewDataFrame (Some directory7)) = Some directory7"
    by (simp add: NewDataFrame_def)
  have b: "pack_data_stations L [station7] = Inr [0, 0, 0, 0, 0, 0, 0, 0, 0, 0]"
    by (simp add: pack7)
  have "DataFrame_Pack L (NewDataFrame (Some directory7)) [station7]
     = Inr ([0xAA, 0x01, 0x00, 0x1A, 0, 0, 0, 0, 0, 0, 0, 0, 0, 0,
             0, 0, 0, 0, 0, 0, 0, 0, 0, 0]
            @ be16 (CalcCRC [0xAA, 0x01, 0x00, 0x1A, 0, 0, 0, 0, 0, 0, 0, 0, 0, 0,
             0, 0, 0, 0, 0, 0, 0, 0, 0, 0]))"
    unfolding DataFrame_Pack_def a option.case directory7_stations stations7 bind_err_simps
      size7 b Let_def hdr7
    by simp
  then show ?thesis unfolding crc7 frame7_def by simp
qed

lemma parse7:
  "unpack_data_stations L frame7 [0] 14 [station7]
     = ([station7\<lparr>PhasorValues := [0]\<rparr>], Inr 24)"
  by (simp add: frame7_def station7_eq unpack_data_station_def read_phasor_def unpack_freq_def
      FormatPhasorType_def FormatCoord_def FormatFreqType_def FormatAnalogType_def
      GetPhasorFactor_def GetNominalFrequency_def FreqNom50Hz_def of_int16_def bytes_eval
      zero_complex.code)

lemma unpack_frame7:
  "DataFrame_Unpack L (NewDataFrame (Some directory7)) frame7 [station7]
     = (((NewDataFrame (Some directory7))\<lparr>FrameSize := 26, CHK := 0x14B4\<rparr>,
         [station7\<lparr>PhasorValues := [0]\<rparr>]), None)"
proof -
  have a: "AssociatedConfig (NewDataFrame (Some directory7)) = Some directory7"
    by (simp add: NewDataFrame_def)
  have l: "16 \<le> length frame7" by (simp add: frame7_def)
  have fs: "u16_at frame7 2 = 26" by (simp add: frame7_def u16_at_def)
  have f: "16 \<le> u16_at frame7 2" by (simp add: fs)
  have p: "unpack_data_stations L frame7 (PMUStationList directory7) 14 [station7]
     = ([station7\<lparr>PhasorValues := [0]\<rparr>], Inr 24)"
    unfolding directory7_stations by (rule parse7)
  have b: "unat (u16_at frame7 2) \<le> length frame7"
    by (simp add: fs) (simp add: frame7_def)
  have c: "CalcCRC (take 24 frame7) = u16_at frame7 24"
    by (simp add: frame7_def crc_eval u16_at_def)
  have h: "u16_at frame7 0 = 0xAA01" "u16_at frame7 4 = 0" "u32_at frame7 6 = 0"
    "u32_at frame7 10 = 0" "u16_at frame7 24 = 0x14B4"
    by (simp_all add: frame7_def u16_at_def u32_at_def)
  show ?thesis
    unfolding DataFrame_Unpack_parsed [OF a l f p b]
    by (simp add: fs c h NewDataFrame_def SyncAA_def SyncData_def)
qed

text \<open>
  Claim C7, as amended. For the station with one phasor channel in the integer rectangular
  format, scale factor 915527 and source value \<open>3 + 4i\<close>, the only object of the store,
  packing the data frame and
  decoding it against the same directory returns no error and recovers the phasor
  \<open>0 + 0i\<close>: both scaled components, \<open>300000 / 915527\<close> and \<open>400000 / 915527\<close>, truncate
  to the integer 0. The recovered value is within the quantization step
  \<open>915527 / 100000\<close> of the source in each component.
\<close>

theorem roundtrip_scale_915527:
  "Data_roundtrip L directory7 [station7] = Some [station7\<lparr>PhasorValues := [Complex 0 0]\<rparr>]
   \<and> \<bar>Re (Complex 0 0) - Re (Complex 3 4)\<bar> < real (unat (GetPhasorFactor station7 0)) / 100000
   \<and> \<bar>Im (Complex 0 0) - Im (Complex 3 4)\<bar> < real (unat (GetPhasorFactor station7 0)) / 100000"
proof -
  have "GetPhasorFactor station7 0 = 915527"
    by (simp add: GetPhasorFactor_def station7_eq)
  then show ?thesis
    unfolding Data_roundtrip_def pack_frame7 sum.case unpack_frame7
    by (simp add: directory7_stations stations_of_def zero_complex.code)
qed

text \<open>
  The claim as stated fails: the recovered components differ from 3 and 4 by 3 and 4, more
  than \<open>1 / 100\<close>.
\<close>

theorem roundtrip_scale_915527_counterexample:
  "map PhasorValues (the (Data_roundtrip lib0 directory7 [station7])) = [[Complex 0 0]]
   \<and> PhasorValues station7 = [Complex 3 4]
   \<and> \<not> \<bar>Re (Complex 0 0) - Re (Complex 3 4)\<bar> \<le> 1 / 100
   \<and> \<not> \<bar>Im (Complex 0 0) - Im (Complex 3 4)\<bar> \<le> 1 / 100"
  unfolding Data_roundtrip_def pack_frame7 sum.case unpack_frame7
  by (simp add: directory7_stations stations_of_def zero_complex.code station7_eq)

section \<open>A flipped bit and the checksum\<close>

lemma bit_shift_uint16:
  "bit (push_bit m c :: uint16) n = (m \<le> n \<and> n < 16 \<and> bit c (n - m))"
  by (auto simp: bit_push_bit_iff possible_bit_word)

lemma bit_crc_bit:
  "bit (crc_bit c) n =
     ((1 \<le> n \<and> n < 16 \<and> bit c (n - 1)) \<noteq> (bit c 15 \<and> bit (0x1021 :: uint16) n))"
  by (cases "bit c 15")
    (simp_all only: crc_bit_def if_True if_False bit_xor_iff bit_shift_uint16 simp_thms)

lemma crc_bit_0: "bit (crc_bit c) 0 = bit c 15"
  by (simp add: bit_crc_bit)

lemma crc_bit_Suc:
  "n < 15 \<Longrightarrow> bit (crc_bit c) (Suc n) = (bit c n \<noteq> (bit c 15 \<and> bit (0x1021 :: uint16) (Suc n)))"
  by (simp add: bit_crc_bit)

lemma crc_bit_inj:
  assumes "crc_bit a = crc_bit b"
  shows "a = b"
proof (rule bit_eqI)
  fix n
  assume "possible_bit TYPE(uint16) n"
  have top: "bit a 15 = bit b 15"
    using assms crc_bit_0 [of a] crc_bit_0 [of b] by simp
  show "bit a n = bit b n"
  proof (cases "n < 15")
    case True
    then show ?thesis
      using assms crc_bit_Suc [of n a] crc_bit_Suc [of n b] top by auto
  next
    case False
    show ?thesis
    proof (cases "n = 15")
      case True
      then show ?thesis using top by simp
    next
      case False
      with \<open>\<not> n < 15\<close> have "16 \<le> n" by simp
      then have "\<not> bit a n" "\<not> bit b n" by (auto dest: bit_imp_le_length)
      then show ?thesis by simp
    qed
  qed
qed

lemma crc_bit_pow_inj: "(crc_bit ^^ k) a = (crc_bit ^^ k) b \<Longrightarrow> a = b"
  by (induction k) (auto dest: crc_bit_inj)

lemma push_byte_inj:
  assumes "push_bit 8 (ucast (b1 :: byte) :: uint16) = push_bit 8 (ucast b2)"
  shows "b1 = b2"
proof (rule bit_eqI)
  fix n
  assume "possible_bit TYPE(byte) n"
  then have n: "n < 8" by (simp add: possible_bit_word)
  have "bit (push_bit 8 (ucast b1 :: uint16)) (n + 8) = bit (push_bit 8 (ucast b2 :: uint16)) (n + 8)"
    using assms by simp
  then show "bit b1 n = bit b2 n"
    using n by (simp add: bit_simps)
qed

lemma xor_cancel_right: "(a :: uint16) XOR x = b XOR x \<Longrightarrow> a = b"
proof -
  assume "a XOR x = b XOR x"
  then have "(a XOR x) XOR x = (b XOR x) XOR x" by simp
  then show "a = b" by (simp add: xor.assoc)
qed

lemma xor_cancel_left: "(x :: uint16) XOR a = x XOR b \<Longrightarrow> a = b"
  using xor_cancel_right [of a x b] by (simp add: xor.commute)

lemma crc_byte_inj_state: "crc_byte c1 b = crc_byte c2 b \<Longrightarrow> c1 = c2"
  unfolding crc_byte_def by (drule crc_bit_pow_inj) (rule xor_cancel_right)

lemma crc_byte_inj_byte: "crc_byte c b1 = crc_byte c b2 \<Longrightarrow> b1 = b2"
  unfolding crc_byte_def by (drule crc_bit_pow_inj) (auto dest: xor_cancel_left push_byte_inj)

lemma foldl_crc_inj: "foldl crc_byte c1 xs = foldl crc_byte c2 xs \<Longrightarrow> c1 = c2"
  by (induction xs arbitrary: c1 c2) (auto dest: crc_byte_inj_state)

lemma CalcCRC_one_byte:
  assumes "CalcCRC (pre @ b1 # post) = CalcCRC (pre @ b2 # post)"
  shows "b1 = b2"
proof -
  have "foldl crc_byte (crc_byte (foldl crc_byte 0xFFFF pre) b1) post
      = foldl crc_byte (crc_byte (foldl crc_byte 0xFFFF pre) b2) post"
    using assms by (simp add: CalcCRC_def)
  then show ?thesis
    by (auto dest!: foldl_crc_inj crc_byte_inj_byte)
qed

lemma CalcCRC_update:
  assumes "pos < length xs" and "b \<noteq> xs ! pos"
  shows "CalcCRC (xs[pos := b]) \<noteq> CalcCRC xs"
proof -
  have xs: "xs = take pos xs @ xs ! pos # drop (Suc pos) xs"
    using assms(1) by (simp add: id_take_nth_drop)
  have "xs[pos := b] = take pos xs @ b # drop (Suc pos) xs"
    using assms(1) by (simp add: upd_conv_take_nth_drop)
  then show ?thesis
    using CalcCRC_one_byte [of "take pos xs" b "drop (Suc pos) xs" "xs ! pos"] xs assms(2)
    by metis
qed

lemma u16_be16: "push_bit 8 (ucast (ucast (drop_bit 8 w) :: byte)) OR ucast (ucast w :: byte) = (w :: uint16)"
  by (rule bit_eqI) (auto simp: bit_simps)

lemma u16_at_be16: "u16_at (xs @ be16 w @ ys) (length xs) = w"
  by (simp add: u16_at_def be16_def nth_append u16_be16)

lemma length_be [simp]: "length (be16 w) = 2" "length (be32 v) = 4"
  by (simp_all add: be16_def be32_def)

lemma length_write_header [simp]: "length (write_header c) = 14"
  by (simp add: write_header_def)

text \<open>A frame is sealed when its last two bytes are the checksum of the bytes before them.\<close>

lemma sealed_append:
  assumes "fr = buf @ be16 (CalcCRC buf)"
  shows "length fr = length buf + 2"
    and "u16_at fr (length fr - 2) = CalcCRC (take (length fr - 2) fr)"
  using assms u16_at_be16 [of buf "CalcCRC buf" "[]"] by simp_all

lemma sealed_result:
  assumes "Inr (buf @ be16 (CalcCRC buf)) = (Inr fr :: error + byte list)" and "n \<le> length buf"
  shows "n + 2 \<le> length fr \<and> u16_at fr (length fr - 2) = CalcCRC (take (length fr - 2) fr)"
proof -
  have "fr = buf @ be16 (CalcCRC buf)" using assms(1) by simp
  then show ?thesis using sealed_append [of fr buf] assms(2) by simp
qed

lemma HeaderFrame_Pack_sealed:
  assumes "HeaderFrame_Pack h = Inr fr"
  shows "16 \<le> length fr \<and> u16_at fr (length fr - 2) = CalcCRC (take (length fr - 2) fr)"
  using sealed_result [OF assms [unfolded HeaderFrame_Pack_def Let_def], of 14] by simp

lemma CommandFrame_Pack_sealed:
  assumes "CommandFrame_Pack c = Inr fr"
  shows "18 \<le> length fr \<and> u16_at fr (length fr - 2) = CalcCRC (take (length fr - 2) fr)"
  using sealed_result [OF assms [unfolded CommandFrame_Pack_def Let_def], of 16] by simp

lemma ConfigFrame_Pack_sealed:
  assumes "ConfigFrame_Pack c h = Inr fr"
  shows "24 \<le> length fr \<and> u16_at fr (length fr - 2) = CalcCRC (take (length fr - 2) fr)"
proof -
  from assms [unfolded ConfigFrame_Pack_def Let_def] obtain pmus where
    "Inr ((write_header (c\<lparr>FrameSize := config_frame_size pmus\<rparr>)
          @ be32 (TimeBase (c\<lparr>FrameSize := config_frame_size pmus\<rparr>))
          @ be16 (NumPMU (c\<lparr>FrameSize := config_frame_size pmus\<rparr>))
          @ concat (map pack_config_station pmus)
          @ be16 (DataRate (c\<lparr>FrameSize := config_frame_size pmus\<rparr>)))
        @ be16 (CalcCRC (write_header (c\<lparr>FrameSize := config_frame_size pmus\<rparr>)
          @ be32 (TimeBase (c\<lparr>FrameSize := config_frame_size pmus\<rparr>))
          @ be16 (NumPMU (c\<lparr>FrameSize := config_frame_size pmus\<rparr>))
          @ concat (map pack_config_station pmus)
          @ be16 (DataRate (c\<lparr>FrameSize := config_frame_size pmus\<rparr>)))))
     = (Inr fr :: error + byte list)"
    by (rule bind_err_Inr_cases)
  from sealed_result [OF this, of 22] show ?thesis by simp
qed

lemma word_size_facts:
  fixes fs :: uint16
  assumes "unat fs = n" and "m \<le> n" and "2 \<le> m" and "m < 65536"
  shows "\<not> fs < of_nat m" and "unat (fs - 2) = n - 2"
proof -
  have m: "unat (of_nat m :: uint16) = m" using assms(4) by (simp add: unat_of_nat)
  show "\<not> fs < of_nat m"
    using assms(1,2) by (simp add: word_less_nat_alt m)
  have "2 \<le> fs" using assms(1,2,3) by (simp add: word_le_nat_alt)
  then show "unat (fs - 2) = n - 2" using assms(1) by (simp add: unat_sub)
qed

lemma HeaderFrame_Unpack_sized:
  assumes "16 \<le> length data" and "unat (u16_at data 2) = length data"
  shows "snd (HeaderFrame_Unpack h data) =
     (if CalcCRC (take (length data - 2) data) \<noteq> u16_at data (length data - 2)
      then Some ErrCRCFailed else None)"
proof -
  have l: "\<not> length data < 16" "2 \<le> length data" "4 \<le> length data" "6 \<le> length data"
    "10 \<le> length data" "14 \<le> length data"
    using assms(1) by simp_all
  have f: "\<not> u16_at data 2 < 16" "unat (u16_at data 2 - 2) = length data - 2"
    using word_size_facts [OF assms(2), of 16] assms(1) by simp_all
  have c: "read_u16 data (length data - 2) = Inr (u16_at data (length data - 2), length data)"
    using read_chk [of "length data" data] assms(1) by simp
  have r: "read_bytes data 14 n = Inr (take n (drop 14 data) @ replicate (n - length (take n (drop 14 data))) 0,
      14 + length (take n (drop 14 data)))" for n
    using assms(1) by (simp add: read_bytes_def Let_def)
  show ?thesis
    by (simp add: HeaderFrame_Unpack_def l f read_fixed c r Let_def)
qed

lemma CommandFrame_Unpack_sized:
  assumes "18 \<le> length data" and "unat (u16_at data 2) = length data"
  shows "snd (CommandFrame_Unpack c data) =
     (if CalcCRC (take (length data - 2) data) \<noteq> u16_at data (length data - 2)
      then Some ErrCRCFailed else None)"
proof -
  have l: "\<not> length data < 18" "2 \<le> length data" "4 \<le> length data" "6 \<le> length data"
    "10 \<le> length data" "14 \<le> length data" "16 \<le> length data"
    using assms(1) by simp_all
  have f: "\<not> u16_at data 2 < 18" "unat (u16_at data 2 - 2) = length data - 2"
    using word_size_facts [OF assms(2), of 18] assms(1) by simp_all
  have c: "read_u16 data (length data - 2) = Inr (u16_at data (length data - 2), length data)"
    using read_chk [of "length data" data] assms(1) by simp
  have r: "read_bytes data 16 (length data - 18)
     = Inr (take (length data - 18) (drop 16 data), length data - 2)"
    using assms(1) by (simp add: read_bytes_def Let_def min_def)
  show ?thesis
  proof (cases "length data = 18")
    case True
    then show ?thesis
      using c by (simp add: CommandFrame_Unpack_def l f read_fixed assms(2) Let_def)
  next
    case False
    then have "0 < length data - 18" using assms(1) by simp
    moreover have "length data - 18 < 65518"
      using assms(2) unsigned_less [of "u16_at data 2", where 'a = nat] by simp
    ultimately show ?thesis
      by (simp add: CommandFrame_Unpack_def l f read_fixed assms(2) r c Let_def)
  qed
qed

lemma bind_err_Inl:
  assumes "bind_err m k = Inl e"
    and "m = Inl e \<Longrightarrow> P" and "\<And>x. m = Inr x \<Longrightarrow> k x = Inl e \<Longrightarrow> P"
  shows P
  using assms by (cases m) simp_all

lemma read_errors:
  "read_u16 s i = Inl e \<Longrightarrow> input_error e"
  "read_u32 s i = Inl e \<Longrightarrow> input_error e"
  "read_bytes s i n = Inl e \<Longrightarrow> input_error e"
  by (auto simp: read_u16_def read_u32_def read_bytes_def Let_def input_error_def split: if_splits)

lemma read_u32s_errors: "read_u32s s i n = Inl e \<Longrightarrow> input_error e"
proof (induction n arbitrary: i e)
  case 0
  then show ?case by simp
next
  case (Suc n)
  from Suc.prems show ?case
    by (auto elim!: bind_err_Inl dest: read_errors Suc.IH simp: split_def)
qed

lemma read_names_errors: "read_names L s i n = Inl e \<Longrightarrow> input_error e"
proof (induction n arbitrary: i e)
  case 0
  then show ?case by simp
next
  case (Suc n)
  from Suc.prems show ?case
    by (auto elim!: bind_err_Inl dest: read_errors Suc.IH simp: split_def)
qed

lemma readChannelNames_errors: "readChannelNames L s i a b c = Inl e \<Longrightarrow> input_error e"
  unfolding readChannelNames_def
  by (auto elim!: bind_err_Inl dest: read_names_errors simp: split_def)

lemma input_error_size: "input_error ErrInvalidSize"
  by (simp add: input_error_def)

lemma unpackPMUStation_errors: "unpackPMUStation L s i = Inl e \<Longrightarrow> input_error e"
  unfolding unpackPMUStation_def
  by (auto elim!: bind_err_Inl dest: read_errors read_u32s_errors readChannelNames_errors
      intro: input_error_size simp: split_def Let_def split: if_splits)

lemma unpack_config_stations_errors:
  "unpack_config_stations L s c i n h = (c1, Inl e) \<Longrightarrow> input_error e"
  by (induction n arbitrary: c i h)
    (auto dest: unpackPMUStation_errors split: sum.splits prod.splits)

lemma or_return_Some:
  assumes "snd (or_return m h k) = Some e"
    and "m = Inl e \<Longrightarrow> P" and "\<And>x. m = Inr x \<Longrightarrow> snd (k x) = Some e \<Longrightarrow> P"
  shows P
  using assms by (cases m) simp_all

lemma or_return_None:
  assumes "snd (or_return m h k) = None"
    and "\<And>x. m = Inr x \<Longrightarrow> snd (k x) = None \<Longrightarrow> P"
  shows P
  using assms by (cases m) simp_all

lemma ConfigFrame_Unpack_errors:
  assumes "snd (ConfigFrame_Unpack L c data h) = Some e"
  shows "e = ErrCRCFailed \<or> input_error e"
proof -
  have sz: "input_error ErrInvalidSize" by (simp add: input_error_def)
  have st: "snd (unpack_config_stations L data c1 i n h) = Inl e \<Longrightarrow> input_error e" for c1 i n
    using unpack_config_stations_errors [of L data c1 i n h] by (metis prod.collapse)
  show ?thesis
    using assms unfolding ConfigFrame_Unpack_def
    by (auto elim!: or_return_Some dest!: read_errors st
        simp: split_def Let_def sz split: if_splits)
qed

lemma ConfigFrame_Unpack_None:
  assumes "snd (ConfigFrame_Unpack L c data h) = None"
  shows "CalcCRC (take (unat (u16_at data 2 - 2)) data) = u16_at data (unat (u16_at data 2 - 2))"
proof -
  have "16 \<le> length data" using assms by (auto simp: ConfigFrame_Unpack_def split: if_splits)
  then have l: "2 \<le> length data" "4 \<le> length data" by simp_all
  show ?thesis
    using assms unfolding ConfigFrame_Unpack_def
    by (auto elim!: or_return_None dest!: read_u16_Inr
        simp: split_def Let_def read_fixed l split: if_splits)
qed

lemma ConfigFrame_Unpack_corrupt:
  assumes "24 \<le> length data" and "unat (u16_at data 2) = length data"
    and "CalcCRC (take (length data - 2) data) \<noteq> u16_at data (length data - 2)"
  shows "\<exists>e. snd (ConfigFrame_Unpack L c data h) = Some e \<and> (e = ErrCRCFailed \<or> input_error e)"
proof (cases "snd (ConfigFrame_Unpack L c data h)")
  case None
  have "unat (u16_at data 2 - 2) = length data - 2"
    using word_size_facts(2) [OF assms(2), of 24] assms(1) by simp
  with ConfigFrame_Unpack_None [OF None] assms(3) show ?thesis by simp
next
  case (Some e)
  with ConfigFrame_Unpack_errors [OF Some] show ?thesis by simp
qed

lemma flip_changes: "k < 8 \<Longrightarrow> (b :: byte) XOR push_bit k 1 \<noteq> b"
proof
  assume k: "k < 8" and "b XOR push_bit k 1 = b"
  then have "bit (b XOR push_bit k 1) k = bit b k" by simp
  then show False using k by (simp add: bit_simps)
qed

lemma u16_at_update: "pos \<noteq> i \<Longrightarrow> pos \<noteq> i + 1 \<Longrightarrow> u16_at (xs[pos := b]) i = u16_at xs i"
  by (simp add: u16_at_def)

text \<open>
  What a change of one byte outside the size field and the checksum does to a frame whose
  declared size is its length and whose checksum is right.
\<close>

lemma corrupt_frame:
  assumes sz: "unat (u16_at fr 2) = length fr"
    and crc: "u16_at fr (length fr - 2) = CalcCRC (take (length fr - 2) fr)"
    and pos: "pos < length fr - 2" "pos \<noteq> 2" "pos \<noteq> 3" and k: "k < 8"
  shows "length (flip_bit fr pos k) = length fr"
    and "unat (u16_at (flip_bit fr pos k) 2) = length (flip_bit fr pos k)"
    and "CalcCRC (take (length (flip_bit fr pos k) - 2) (flip_bit fr pos k))
          \<noteq> u16_at (flip_bit fr pos k) (length (flip_bit fr pos k) - 2)"
proof -
  let ?b = "fr ! pos XOR push_bit k 1"
  show len: "length (flip_bit fr pos k) = length fr" by (simp add: flip_bit_def)
  have "u16_at (flip_bit fr pos k) 2 = u16_at fr 2"
    unfolding flip_bit_def using pos(2,3) by (simp add: u16_at_update)
  then show "unat (u16_at (flip_bit fr pos k) 2) = length (flip_bit fr pos k)"
    using sz len by simp
  have chk: "u16_at (flip_bit fr pos k) (length fr - 2) = u16_at fr (length fr - 2)"
    unfolding flip_bit_def using pos(1) by (simp add: u16_at_update)
  have "take (length fr - 2) (flip_bit fr pos k) = (take (length fr - 2) fr)[pos := ?b]"
    by (simp add: flip_bit_def take_update_swap)
  moreover have "CalcCRC ((take (length fr - 2) fr)[pos := ?b]) \<noteq> CalcCRC (take (length fr - 2) fr)"
    using pos(1) flip_changes [OF k, of "fr ! pos"] by (intro CalcCRC_update) simp_all
  ultimately show "CalcCRC (take (length (flip_bit fr pos k) - 2) (flip_bit fr pos k))
          \<noteq> u16_at (flip_bit fr pos k) (length (flip_bit fr pos k) - 2)"
    using len chk crc by simp
qed

lemma same_shape_refl [simp]: "same_shape p p"
  by (simp add: same_shape_def)

lemma same_shape_trans: "same_shape p q \<Longrightarrow> same_shape q r \<Longrightarrow> same_shape p r"
  by (simp add: same_shape_def)

lemma same_shape_formats:
  assumes "same_shape p q"
  shows "FormatPhasorType p = FormatPhasorType q" "FormatCoord p = FormatCoord q"
    "FormatFreqType p = FormatFreqType q" "FormatAnalogType p = FormatAnalogType q"
  using assms
  by (simp_all add: same_shape_def FormatPhasorType_def FormatCoord_def FormatFreqType_def
      FormatAnalogType_def)

lemma read_phasor_ok:
  assumes "i + (if FormatPhasorType pmu then 8 else 4) \<le> length s"
  shows "\<exists>v. read_phasor L pmu s i j = Inr (v, i + (if FormatPhasorType pmu then 8 else 4))"
  using assms by (auto simp: read_phasor_def read_u16_ok read_u32_ok)

lemma unpack_phasors_ok:
  assumes "j + n \<le> length (PhasorValues pmu)"
    and "i + (if FormatPhasorType pmu then 8 else 4) * n \<le> length s"
  shows "\<exists>pmu1. unpack_phasors L s pmu i j n
           = (pmu1, Inr (i + (if FormatPhasorType pmu then 8 else 4) * n))
         \<and> same_shape pmu1 pmu"
  using assms
proof (induction n arbitrary: pmu i j)
  case 0
  then show ?case by simp
next
  case (Suc n)
  let ?w = "if FormatPhasorType pmu then 8 else 4 :: nat"
  from Suc.prems(2) have "i + ?w \<le> length s" by (auto split: if_splits)
  then obtain v where v: "read_phasor L pmu s i j = Inr (v, i + ?w)"
    using read_phasor_ok [of i pmu s L j] by auto
  let ?pmu = "pmu\<lparr>PhasorValues := (PhasorValues pmu)[j := v]\<rparr>"
  have sh: "same_shape ?pmu pmu" by (simp add: same_shape_def)
  have f: "FormatPhasorType ?pmu = FormatPhasorType pmu" by (simp add: FormatPhasorType_def)
  have "Suc j + n \<le> length (PhasorValues ?pmu)" using Suc.prems(1) by simp
  moreover have "(i + ?w) + (if FormatPhasorType ?pmu then 8 else 4) * n \<le> length s"
    using Suc.prems(2) by (auto simp: f split: if_splits)
  ultimately obtain pmu1 where
    "unpack_phasors L s ?pmu (i + ?w) (Suc j) n
       = (pmu1, Inr ((i + ?w) + (if FormatPhasorType ?pmu then 8 else 4) * n))"
    and "same_shape pmu1 ?pmu"
    using Suc.IH [of "Suc j" ?pmu "i + ?w"] by blast
  then show ?case
    using v Suc.prems(1) sh by (auto simp: f intro: same_shape_trans split: if_splits)
qed

lemma unpack_freq_ok:
  assumes "i + (if FormatFreqType pmu then 8 else 4) \<le> length s"
  shows "\<exists>pmu1. unpack_freq L s pmu i = (pmu1, Inr (i + (if FormatFreqType pmu then 8 else 4)))
         \<and> same_shape pmu1 pmu"
  using assms by (auto simp: unpack_freq_def read_u16_ok read_u32_ok same_shape_def Let_def)

lemma unpack_analogs_ok:
  assumes "j + n \<le> length (AnalogValues pmu)"
    and "i + (if FormatAnalogType pmu then 4 else 2) * n \<le> length s"
  shows "\<exists>pmu1. unpack_analogs L s pmu i j n
           = (pmu1, Inr (i + (if FormatAnalogType pmu then 4 else 2) * n))
         \<and> same_shape pmu1 pmu"
  using assms
proof (induction n arbitrary: pmu i j)
  case 0
  then show ?case by simp
next
  case (Suc n)
  let ?w = "if FormatAnalogType pmu then 4 else 2 :: nat"
  let ?v = "if FormatAnalogType pmu then Float32frombits L (u32_at s i) else of_int16 (u16_at s i)"
  let ?pmu = "pmu\<lparr>AnalogValues := (AnalogValues pmu)[j := ?v]\<rparr>"
  have sh: "same_shape ?pmu pmu" by (simp add: same_shape_def)
  have f: "FormatAnalogType ?pmu = FormatAnalogType pmu" by (simp add: FormatAnalogType_def)
  have step: "unpack_analogs L s pmu i j (Suc n) = unpack_analogs L s ?pmu (i + ?w) (Suc j) n"
    using Suc.prems by (auto simp: read_u16_ok read_u32_ok split: if_splits)
  have "Suc j + n \<le> length (AnalogValues ?pmu)" using Suc.prems(1) by simp
  moreover have "(i + ?w) + (if FormatAnalogType ?pmu then 4 else 2) * n \<le> length s"
    using Suc.prems(2) by (auto simp: f split: if_splits)
  ultimately obtain pmu1 where
    "unpack_analogs L s ?pmu (i + ?w) (Suc j) n
       = (pmu1, Inr ((i + ?w) + (if FormatAnalogType ?pmu then 4 else 2) * n))"
    and "same_shape pmu1 ?pmu"
    using Suc.IH [of "Suc j" ?pmu "i + ?w"] by blast
  then show ?case
    unfolding step using sh by (auto simp: f intro: same_shape_trans split: if_splits)
qed

lemma length_digital_bits [simp]: "length (digital_bits w bs) = length bs"
proof -
  have "length (fold (\<lambda>k b. b[k := f k]) ks bs) = length bs" for f :: "nat \<Rightarrow> bool" and ks
    by (induction ks arbitrary: bs) simp_all
  then show ?thesis by (simp add: digital_bits_def)
qed

lemma unpack_digitals_ok:
  assumes "\<forall>j1 < j + n. j1 < length (DigitalValues pmu) \<and> 16 \<le> length (DigitalValues pmu ! j1)"
    and "i + 2 * n \<le> length s"
  shows "\<exists>pmu1. unpack_digitals s pmu i j n = (pmu1, Inr (i + 2 * n)) \<and> same_shape pmu1 pmu"
  using assms
proof (induction n arbitrary: pmu i j)
  case 0
  then show ?case by simp
next
  case (Suc n)
  let ?dv = "DigitalValues pmu"
  let ?pmu = "pmu\<lparr>DigitalValues := ?dv[j := digital_bits (u16_at s i) (?dv ! j)]\<rparr>"
  have j: "j < length ?dv" "16 \<le> length (?dv ! j)" using Suc.prems(1) by simp_all
  have ml: "map length (DigitalValues ?pmu) = map length ?dv"
    using j by (simp add: map_update list_update_same_conv)
  have sh: "same_shape ?pmu pmu" using ml by (simp add: same_shape_def)
  have step: "unpack_digitals s pmu i j (Suc n) = unpack_digitals s ?pmu (i + 2) (Suc j) n"
    using Suc.prems(2) j by (simp add: read_u16_ok)
  have "\<forall>j1 < Suc j + n. j1 < length (DigitalValues ?pmu) \<and> 16 \<le> length (DigitalValues ?pmu ! j1)"
  proof (intro allI impI)
    fix j1 assume "j1 < Suc j + n"
    then have a: "j1 < length ?dv" "16 \<le> length (?dv ! j1)" using Suc.prems(1) by simp_all
    have "length (DigitalValues ?pmu ! j1) = length (?dv ! j1)"
      using a(1) by (cases "j1 = j") simp_all
    then show "j1 < length (DigitalValues ?pmu) \<and> 16 \<le> length (DigitalValues ?pmu ! j1)"
      using a by simp
  qed
  moreover have "(i + 2) + 2 * n \<le> length s" using Suc.prems(2) by simp
  ultimately obtain pmu1 where
    "unpack_digitals s ?pmu (i + 2) (Suc j) n = (pmu1, Inr ((i + 2) + 2 * n))"
    and "same_shape pmu1 ?pmu"
    using Suc.IH [of "Suc j" ?pmu "i + 2"] by blast
  then show ?case
    unfolding step using sh by (auto intro: same_shape_trans)
qed

lemma length_concat_fixed:
  assumes "\<And>x. x \<in> set xs \<Longrightarrow> length (f x) = w"
  shows "length (concat (map f xs)) = w * length xs"
  using assms by (induction xs) simp_all

lemma length_pack_phasor:
  "length (pack_phasor L pmu j) = (if FormatPhasorType pmu then 8 else 4)"
  by (simp add: pack_phasor_def Let_def)

lemma length_pack_freq: "length (pack_freq L pmu) = (if FormatFreqType pmu then 8 else 4)"
  by (simp add: pack_freq_def Let_def)

lemma length_pack_analog:
  "length (pack_analog L pmu j) = (if FormatAnalogType pmu then 4 else 2)"
  by (simp add: pack_analog_def)

lemma pack_data_station_Inr:
  assumes "pack_data_station L pmu = Inr bs"
  shows "station_indexable pmu \<and> length bs = data_station_bytes pmu"
proof -
  have ix: "station_indexable pmu"
    using assms by (auto simp: pack_data_station_def station_indexable_def split: if_splits)
  have "bs = be16 (Stat pmu)
         @ concat (map (pack_phasor L pmu) [0 ..< unat (Phnmr pmu)])
         @ pack_freq L pmu
         @ concat (map (pack_analog L pmu) [0 ..< unat (Annmr pmu)])
         @ concat (map (\<lambda>j. be16 (digital_word (DigitalValues pmu ! j)))
                     [0 ..< unat (Dgnmr pmu)])"
    using assms by (auto simp: pack_data_station_def split: if_splits)
  then have "length bs = data_station_bytes pmu"
    by (simp add: data_station_bytes_def length_pack_freq
        length_concat_fixed [where w = "if FormatPhasorType pmu then 8 else 4"]
        length_concat_fixed [where w = "if FormatAnalogType pmu then 4 else 2"]
        length_concat_fixed [where w = 2]
        length_pack_phasor length_pack_analog)
  with ix show ?thesis by simp
qed

lemma unpack_data_station_ok:
  assumes ix: "station_indexable pmu" and len: "i + data_station_bytes pmu \<le> length s"
  shows "\<exists>pmu1. unpack_data_station L s pmu i = (pmu1, Inr (i + data_station_bytes pmu))
     \<and> same_shape pmu1 pmu"
proof -
  let ?wp = "if FormatPhasorType pmu then 8 else 4 :: nat"
  let ?wf = "if FormatFreqType pmu then 8 else 4 :: nat"
  let ?wa = "if FormatAnalogType pmu then 4 else 2 :: nat"
  let ?np = "unat (Phnmr pmu)" and ?na = "unat (Annmr pmu)" and ?nd = "unat (Dgnmr pmu)"
  have total: "data_station_bytes pmu = 2 + ?wp * ?np + ?wf + ?wa * ?na + 2 * ?nd"
    by (simp add: data_station_bytes_def)
  let ?p1 = "pmu\<lparr>Stat := u16_at s i\<rparr>"
  have sh1: "same_shape ?p1 pmu" by (simp add: same_shape_def)
  have rd: "read_u16 s i = Inr (u16_at s i, i + 2)"
    using len total by (simp add: read_u16_ok)
  have "0 + ?np \<le> length (PhasorValues ?p1)"
    using ix by (simp add: station_indexable_def)
  moreover have "(i + 2) + (if FormatPhasorType ?p1 then 8 else 4) * ?np \<le> length s"
    using len total same_shape_formats(1) [OF sh1] by simp
  ultimately obtain p2 where
    u2: "unpack_phasors L s ?p1 (i + 2) 0 ?np = (p2, Inr ((i + 2) + ?wp * ?np))"
    and sh2: "same_shape p2 pmu"
    using unpack_phasors_ok [of 0 ?np ?p1 "i + 2" s L] same_shape_formats(1) [OF sh1]
    by (auto intro: same_shape_trans [OF _ sh1])
  have f2: "FormatFreqType p2 = FormatFreqType pmu" "FormatAnalogType p2 = FormatAnalogType pmu"
    using same_shape_formats [OF sh2] by simp_all
  obtain p3 where u3: "unpack_freq L s p2 (i + 2 + ?wp * ?np) = (p3, Inr (i + 2 + ?wp * ?np + ?wf))"
    and sh3: "same_shape p3 pmu"
    using unpack_freq_ok [of "i + 2 + ?wp * ?np" p2 s L] len total f2
    by (auto intro: same_shape_trans [OF _ sh2])
  have f3: "FormatAnalogType p3 = FormatAnalogType pmu" "Annmr p3 = Annmr pmu"
    "Dgnmr p3 = Dgnmr pmu" "length (AnalogValues p3) = length (AnalogValues pmu)"
    using same_shape_formats [OF sh3] sh3 by (simp_all add: same_shape_def)
  have "0 + ?na \<le> length (AnalogValues p3)"
    using ix f3 by (simp add: station_indexable_def)
  then obtain p4 where
    u4: "unpack_analogs L s p3 (i + 2 + ?wp * ?np + ?wf) 0 ?na
          = (p4, Inr (i + 2 + ?wp * ?np + ?wf + ?wa * ?na))"
    and sh4: "same_shape p4 pmu"
    using unpack_analogs_ok [of 0 ?na p3 "i + 2 + ?wp * ?np + ?wf" s L] len total f3
    by (auto intro: same_shape_trans [OF _ sh3])
  have f4: "Dgnmr p4 = Dgnmr pmu" "map length (DigitalValues p4) = map length (DigitalValues pmu)"
    using sh4 by (simp_all add: same_shape_def)
  have "\<forall>j1 < 0 + ?nd. j1 < length (DigitalValues p4) \<and> 16 \<le> length (DigitalValues p4 ! j1)"
  proof (intro allI impI)
    fix j1 assume "j1 < 0 + ?nd"
    then have a: "j1 < length (DigitalValues pmu)" "16 \<le> length (DigitalValues pmu ! j1)"
      using ix by (simp_all add: station_indexable_def list_all_iff)
    have l: "length (DigitalValues p4) = length (DigitalValues pmu)"
      using f4(2) by (metis length_map)
    have "length (DigitalValues p4 ! j1) = length (DigitalValues pmu ! j1)"
      using f4(2) a(1) l by (metis nth_map)
    then show "j1 < length (DigitalValues p4) \<and> 16 \<le> length (DigitalValues p4 ! j1)"
      using a l by simp
  qed
  then obtain p5 where
    u5: "unpack_digitals s p4 (i + 2 + ?wp * ?np + ?wf + ?wa * ?na) 0 ?nd
          = (p5, Inr (i + 2 + ?wp * ?np + ?wf + ?wa * ?na + 2 * ?nd))"
    and sh5: "same_shape p5 p4"
    using unpack_digitals_ok [of 0 ?nd p4 "i + 2 + ?wp * ?np + ?wf + ?wa * ?na" s] len total
    by auto
  have "unpack_data_station L s pmu i = (p5, Inr (i + data_station_bytes pmu))"
    unfolding unpack_data_station_def rd sum.case prod.case u2 and_then_simps u3 f3(2) u4
      f4(1) u5
    by (simp add: total)
  then show ?thesis using same_shape_trans [OF sh5 sh4] by blast
qed

lemma pack_data_stations_Inr:
  "pack_data_stations L pmus = Inr body \<Longrightarrow>
     list_all station_indexable pmus \<and> length body = sum_list (map data_station_bytes pmus)"
proof (induction pmus arbitrary: body)
  case Nil
  then show ?case by simp
next
  case (Cons pmu pmus)
  from Cons.prems obtain bs rest where a: "pack_data_station L pmu = Inr bs"
    and b: "pack_data_stations L pmus = Inr rest" and c: "body = bs @ rest"
    by (auto elim!: bind_err_Inr_cases)
  show ?case
    using pack_data_station_Inr [OF a] Cons.IH [OF b] c by simp
qed

lemma same_shape_indexable:
  assumes "same_shape q p"
  shows "station_indexable q = station_indexable p" and "data_station_bytes q = data_station_bytes p"
proof -
  have ml: "map length (DigitalValues q) = map length (DigitalValues p)"
    and c: "Phnmr q = Phnmr p" "Annmr q = Annmr p" "Dgnmr q = Dgnmr p"
      "length (PhasorValues q) = length (PhasorValues p)"
      "length (AnalogValues q) = length (AnalogValues p)"
    using assms by (simp_all add: same_shape_def)
  have l: "length (DigitalValues q) = length (DigitalValues p)"
    using arg_cong [OF ml, of length] by simp
  have n: "length (DigitalValues q ! j) = length (DigitalValues p ! j)"
    if "j < length (DigitalValues p)" for j
    using arg_cong [OF ml, of "\<lambda>xs. xs ! j"] that l by simp
  have d: "list_all (\<lambda>j. j < length (DigitalValues q) \<and> 16 \<le> length (DigitalValues q ! j)) ns
      = list_all (\<lambda>j. j < length (DigitalValues p) \<and> 16 \<le> length (DigitalValues p ! j)) ns" for ns
    unfolding list_all_iff l using n by auto
  show "station_indexable q = station_indexable p"
    unfolding station_indexable_def d c ..
  show "data_station_bytes q = data_station_bytes p"
    unfolding data_station_bytes_def same_shape_formats [OF assms] c ..
qed

lemma unpack_data_stations_ok:
  "list_all (\<lambda>r. r < length h \<and> station_indexable (h ! r)) refs \<Longrightarrow>
   i + sum_list (map (\<lambda>r. data_station_bytes (h ! r)) refs) \<le> length s \<Longrightarrow>
   \<exists>h1. unpack_data_stations L s refs i h
     = (h1, Inr (i + sum_list (map (\<lambda>r. data_station_bytes (h ! r)) refs)))"
proof (induction refs arbitrary: i h)
  case Nil
  then show ?case by simp
next
  case (Cons r refs)
  have r: "r < length h" and ix: "station_indexable (h ! r)" using Cons.prems(1) by simp_all
  let ?i1 = "i + data_station_bytes (h ! r)"
  obtain q where a: "unpack_data_station L s (h ! r) i = (q, Inr ?i1)"
    and sh: "same_shape q (h ! r)"
    using unpack_data_station_ok [OF ix, of i s L] Cons.prems(2) by auto
  let ?h = "h[r := q]"
  have same: "same_shape (?h ! a) (h ! a)" for a
    using r sh by (cases "a = r") simp_all
  have ix1: "list_all (\<lambda>r1. r1 < length ?h \<and> station_indexable (?h ! r1)) refs"
    using Cons.prems(1) by (simp add: list_all_iff same_shape_indexable(1) [OF same])
  have bytes: "(\<lambda>r1. data_station_bytes (?h ! r1)) = (\<lambda>r1. data_station_bytes (h ! r1))"
    by (rule ext) (rule same_shape_indexable(2) [OF same])
  have "?i1 + sum_list (map (\<lambda>r1. data_station_bytes (?h ! r1)) refs) \<le> length s"
    unfolding bytes using Cons.prems(2) by simp
  from Cons.IH [OF ix1 this] obtain h1 where
    b: "unpack_data_stations L s refs ?i1 ?h
      = (h1, Inr (?i1 + sum_list (map (\<lambda>r1. data_station_bytes (h ! r1)) refs)))"
    unfolding bytes by blast
  show ?case using r by (simp add: a b add.assoc)
qed

lemma DataFrame_Pack_sealed:
  assumes "DataFrame_Pack L d h = Inr fr"
  shows "\<exists>cfg. AssociatedConfig d = Some cfg
     \<and> list_all (\<lambda>r. r < length h \<and> station_indexable (h ! r)) (PMUStationList cfg)
     \<and> length fr = 16 + sum_list (map (\<lambda>r. data_station_bytes (h ! r)) (PMUStationList cfg))
     \<and> u16_at fr (length fr - 2) = CalcCRC (take (length fr - 2) fr)"
proof -
  obtain cfg where cfg: "AssociatedConfig d = Some cfg"
    using assms by (cases "AssociatedConfig d") (simp_all add: DataFrame_Pack_def)
  let ?refs = "PMUStationList cfg"
  from assms cfg obtain pmus where st: "stations_of h ?refs = Inr pmus"
    and rest: "(let d1 = d\<lparr>FrameSize := data_frame_size pmus\<rparr> in
          bind_err (pack_data_stations L pmus) (\<lambda>body.
          let buf = write_header d1 @ body in Inr (buf @ be16 (CalcCRC buf)))) = Inr fr"
    by (auto simp: DataFrame_Pack_def elim!: bind_err_Inr_cases)
  from st have valid: "list_all (\<lambda>r. r < length h) ?refs" and pmus: "pmus = map (\<lambda>r. h ! r) ?refs"
    by (auto simp: stations_of_def split: if_splits)
  from rest obtain body where body: "pack_data_stations L pmus = Inr body"
    and fr: "fr = (write_header (d\<lparr>FrameSize := data_frame_size pmus\<rparr>) @ body)
         @ be16 (CalcCRC (write_header (d\<lparr>FrameSize := data_frame_size pmus\<rparr>) @ body))"
    by (auto simp: Let_def elim!: bind_err_Inr_cases)
  from pack_data_stations_Inr [OF body]
  have "list_all (\<lambda>r. station_indexable (h ! r)) ?refs"
    and "length body = sum_list (map (\<lambda>r. data_station_bytes (h ! r)) ?refs)"
    by (simp_all add: pmus list_all_iff comp_def)
  then show ?thesis
    using cfg valid sealed_append [OF fr] by (simp add: list_all_iff)
qed

lemma DataFrame_Unpack_corrupt:
  assumes pk: "DataFrame_Pack L d h = Inr fr" and cfg: "AssociatedConfig d0 = AssociatedConfig d"
    and len: "length data = length fr" and sz: "unat (u16_at data 2) = length data"
    and crc: "CalcCRC (take (length data - 2) data) \<noteq> u16_at data (length data - 2)"
  shows "snd (DataFrame_Unpack L d0 data h) = Some ErrCRCFailed"
proof -
  obtain c where c: "AssociatedConfig d = Some c"
    and ix: "list_all (\<lambda>r. r < length h \<and> station_indexable (h ! r)) (PMUStationList c)"
    and l: "length fr = 16 + sum_list (map (\<lambda>r. data_station_bytes (h ! r)) (PMUStationList c))"
    using DataFrame_Pack_sealed [OF pk] by blast
  have c0: "AssociatedConfig d0 = Some c" using cfg c by simp
  have "14 + sum_list (map (\<lambda>r. data_station_bytes (h ! r)) (PMUStationList c)) \<le> length data"
    using l len by simp
  from unpack_data_stations_ok [OF ix this, of L] obtain h1 where
    parse: "unpack_data_stations L data (PMUStationList c) 14 h
      = (h1, Inr (14 + sum_list (map (\<lambda>r. data_station_bytes (h ! r)) (PMUStationList c))))"
    by blast
  have l16: "16 \<le> length data" using l len by simp
  have fs: "16 \<le> u16_at data 2" using sz l16 by (simp add: word_le_nat_alt)
  have le: "unat (u16_at data 2) \<le> length data" using sz by simp
  show ?thesis
    unfolding DataFrame_Unpack_parsed [OF c0 l16 fs parse le] sz Let_def
    using crc by simp
qed

lemma pack_header7_text_frame: "HeaderFrame_Pack (NewHeaderFrame 7 [0xC9, 0x33]) = Inr header7_text_frame"
proof -
  have "write_header ((NewHeaderFrame 7 [0xC9, 0x33])\<lparr>FrameSize := 18\<rparr>)
      = [0xAA, 0x11, 0x00, 0x12, 0x00, 0x07, 0, 0, 0, 0, 0, 0, 0, 0]"
    by (simp add: NewHeaderFrame_def SyncAA_def SyncHdr_def write_header_def be16_def be32_def)
  moreover have "be16 (CalcCRC [0xAA, 0x11, 0x00, 0x12, 0x00, 0x07, 0, 0, 0, 0, 0, 0, 0, 0,
      0xC9, 0x33]) = [0x8A, 0xC6]"
    by (simp add: crc_eval be16_def)
  moreover have "Data (NewHeaderFrame 7 [0xC9, 0x33]) = [0xC9, 0x33]"
    by (simp add: NewHeaderFrame_def)
  ultimately show ?thesis
    by (simp add: HeaderFrame_Pack_def Let_def header7_text_frame_def)
qed

lemma pack_start_frame: "CommandFrame_Pack start_cmd = Inr start_frame"
proof -
  have "write_header start_cmd @ be16 (CMD start_cmd) @ ExtraFrame start_cmd
      = [0xAA, 0x41, 0x00, 0x12, 0x00, 0x07, 0, 0, 0, 0, 0, 0, 0, 0, 0x00, 0x02]"
    by (simp add: start_cmd_def write_header_def be16_def be32_def)
  moreover have "be16 (CalcCRC [0xAA, 0x41, 0x00, 0x12, 0x00, 0x07, 0, 0, 0, 0, 0, 0, 0, 0,
      0x00, 0x02]) = [0x64, 0xFB]"
    by (simp add: crc_eval be16_def)
  ultimately show ?thesis
    by (simp add: CommandFrame_Pack_def Let_def start_frame_def)
qed

lemma pack_empty_config_frame: "ConfigFrame_Pack NewConfigFrame [] = Inr empty_config_frame"
proof -
  have s: "stations_of [] (PMUStationList NewConfigFrame) = Inr []"
    by (simp add: stations_of_def NewConfigFrame_def)
  have z: "config_frame_size [] = 24" by (simp add: config_frame_size_def)
  have b: "write_header (NewConfigFrame\<lparr>FrameSize := 24\<rparr>)
        @ be32 (TimeBase (NewConfigFrame\<lparr>FrameSize := 24\<rparr>))
        @ be16 (NumPMU (NewConfigFrame\<lparr>FrameSize := 24\<rparr>))
        @ concat (map pack_config_station [])
        @ be16 (DataRate (NewConfigFrame\<lparr>FrameSize := 24\<rparr>))
      = [0xAA, 0x31, 0x00, 0x18, 0, 0, 0, 0, 0, 0, 0, 0, 0, 0, 0, 0, 0, 0, 0, 0, 0, 0]"
    by (simp add: NewConfigFrame_def SyncAA_def SyncCfg2_def write_header_def be16_def be32_def)
  have c: "be16 (CalcCRC [0xAA, 0x31, 0x00, 0x18, 0, 0, 0, 0, 0, 0, 0, 0, 0, 0,
      0, 0, 0, 0, 0, 0, 0, 0]) = [0x3C, 0x7C]"
    by (simp add: crc_eval be16_def)
  show ?thesis
    unfolding ConfigFrame_Pack_def s bind_err_simps z Let_def b c empty_config_frame_def
    by simp
qed

lemma flipped_frames:
  "flip_bit header7_text_frame 3 1 = [0xAA, 0x11, 0x00, 0x10, 0x00, 0x07, 0, 0, 0, 0, 0, 0, 0, 0,
                                0xC9, 0x33, 0x8A, 0xC6]"
  "flip_bit header7_text_frame 3 4 = [0xAA, 0x11, 0x00, 0x02, 0x00, 0x07, 0, 0, 0, 0, 0, 0, 0, 0,
                                0xC9, 0x33, 0x8A, 0xC6]"
  "flip_bit header7_text_frame 0 0 = [0xAB, 0x11, 0x00, 0x12, 0x00, 0x07, 0, 0, 0, 0, 0, 0, 0, 0,
                                0xC9, 0x33, 0x8A, 0xC6]"
  "flip_bit empty_config_frame 19 0 = [0xAA, 0x31, 0x00, 0x18, 0, 0, 0, 0, 0, 0, 0, 0, 0, 0,
                                       0, 0, 0, 0, 0, 1, 0, 0, 0x3C, 0x7C]"
  by (simp_all add: flip_bit_def header7_text_frame_def empty_config_frame_def)

lemma header_size_flip_accepted:
  "snd (HeaderFrame_Unpack zero_HeaderFrame (flip_bit header7_text_frame 3 1)) = None"
  unfolding flipped_frames
  by (simp add: HeaderFrame_Unpack_def Let_def crc_eval bytes_eval)

lemma header_size_flip_size_error:
  "snd (HeaderFrame_Unpack zero_HeaderFrame (flip_bit header7_text_frame 3 4)) = Some ErrInvalidSize"
  unfolding flipped_frames
  by (simp add: HeaderFrame_Unpack_size u16_at_def)

lemma header_sync_flip_invalid:
  "snd (UnpackFrame L (flip_bit header7_text_frame 0 0) cfg h) = Some ErrInvalidFrame"
  unfolding flipped_frames
  by (simp add: UnpackFrame_def GetFrameType_def SyncAA_def)

lemma config_count_flip_eof:
  "snd (ConfigFrame_Unpack L c (flip_bit empty_config_frame 19 0) h) = Some EOF"
  unfolding flipped_frames
  by (simp add: ConfigFrame_Unpack_def Let_def bytes_eval unpackPMUStation_def)





end
